theory Spec2Isabelle
  imports Main "HOL-Library.Word"
begin

section \<open>Data model\<close>

text \<open>
  The rows are those of the migration in the repository's documentation
  (\<^verbatim>\<open>CREATE TABLE conversations / messages / typing_indicators\<close>). Identifiers are
  uuids and timestamps are ISO strings in the source; both are modelled as natural
  numbers, which keeps equality, \<^verbatim>\<open>LEAST\<close>/\<^verbatim>\<open>GREATEST\<close> and the ordering by
  \<^verbatim>\<open>created_at\<close>. A JavaScript string is its sequence of UTF-16 code units, each
  a 16-bit word. Column names shared by several tables carry a prefix (\<open>conv_id\<close>,
  \<open>msg_id\<close>, \<open>ti_id\<close>, \<open>ti_conversation_id\<close>); the columns \<^verbatim>\<open>created_at\<close>
  and \<^verbatim>\<open>updated_at\<close> of \<^verbatim>\<open>conversations\<close> are never read by the client and are left
  out. Of the \<^verbatim>\<open>profiles\<close> table the writes of the client depend on the ids only,
  through the foreign keys \<^verbatim>\<open>participant_1\<close>, \<^verbatim>\<open>participant_2\<close>,
  \<^verbatim>\<open>sender_id\<close> and \<^verbatim>\<open>user_id\<close>: the table is the list of its ids.
\<close>

type_synonym uuid = nat
type_synonym timestamp = nat
type_synonym js_string = "16 word list"

record conversation =
  conv_id :: uuid
  participant_1 :: uuid
  participant_2 :: uuid

record message =
  msg_id :: uuid
  conversation_id :: uuid
  sender_id :: uuid
  content :: js_string
  is_read :: bool
  delivered_at :: "timestamp option"
  read_at :: "timestamp option"
  created_at :: timestamp

record typing_indicator =
  ti_id :: uuid
  ti_conversation_id :: uuid
  user_id :: uuid
  is_typing :: bool
  updated_at :: timestamp

text \<open>
  The \<^verbatim>\<open>error\<close> member of a supabase-js response, which is also what the client
  throws. \<open>TransportError\<close> is a request that never reached the database; the next six
  values are what the database answers (\<open>InvalidText\<close> is its refusal of a string that
  the type \<^verbatim>\<open>text\<close> cannot hold). \<open>ValidationError\<close> and
  \<open>ConflictRetryExhausted\<close> are the two failures the specification names for the
  client itself; no statement of the source constructs them, they are here so that
  properties about them can be stated.
\<close>

datatype store_error =
    TransportError
  | RlsViolation
  | CheckViolation
  | UniqueViolation
  | ForeignKeyViolation
  | MultipleRows
  | InvalidText
  | ValidationError
  | ConflictRetryExhausted

text \<open>
  The backend as one client sees it: the ids of the registered profiles, the three
  tables the chat writes, and the fate of the requests still to come. Each request
  consumes the head of \<open>outages\<close>; \<open>True\<close> means that this request fails in
  transport. The empty schedule is a connection without failures.
\<close>

record backend =
  tbl_profiles :: "uuid list"
  tbl_conversations :: "conversation list"
  tbl_messages :: "message list"
  tbl_typing_indicators :: "typing_indicator list"
  outages :: "bool list"

text \<open>The two clock readings one store write can involve: \<^verbatim>\<open>new Date()\<close> in the
  client and \<^verbatim>\<open>now()\<close> in a column default.\<close>

record clock =
  client_now :: timestamp
  server_now :: timestamp

section \<open>The store: requests as the client issues them\<close>

definition request ::
  "(backend \<Rightarrow> (store_error + 'a) \<times> backend) \<Rightarrow> backend \<Rightarrow> (store_error + 'a) \<times> backend"
where
  "request q s =
     (case outages s of
        [] \<Rightarrow> q s
      | f # fs \<Rightarrow>
          if f then (Inl TransportError, s\<lparr>outages := fs\<rparr>)
          else q (s\<lparr>outages := fs\<rparr>))"

text \<open>\<^verbatim>\<open>gen_random_uuid()\<close>: an identifier that no row of the table carries yet.\<close>

definition fresh_id :: "uuid list \<Rightarrow> uuid" where
  "fresh_id used = Suc (fold max used 0)"

text \<open>\<^verbatim>\<open>.maybeSingle()\<close>: no row is \<^verbatim>\<open>data: null\<close>, one row is that row, more
  rows are an error.\<close>

definition maybeSingle :: "'a list \<Rightarrow> store_error + 'a option" where
  "maybeSingle rows =
     (case rows of
        [] \<Rightarrow> Inr None
      | [r] \<Rightarrow> Inr (Some r)
      | _ \<Rightarrow> Inl MultipleRows)"

text \<open>Row level security: the policies of \<^verbatim>\<open>conversations\<close> admit the two
  participants, those of \<^verbatim>\<open>messages\<close> and the \<^verbatim>\<open>SELECT\<close> policy of
  \<^verbatim>\<open>typing_indicators\<close> the participants of the row's conversation. \<open>uid\<close> is
  \<^verbatim>\<open>auth.uid()\<close>, which in the client is always \<^verbatim>\<open>user.id\<close>.\<close>

definition is_participant :: "uuid \<Rightarrow> conversation \<Rightarrow> bool" where
  "is_participant uid c \<longleftrightarrow> participant_1 c = uid \<or> participant_2 c = uid"

definition can_access :: "backend \<Rightarrow> uuid \<Rightarrow> uuid \<Rightarrow> bool" where
  "can_access s uid cid \<longleftrightarrow>
     list_ex (\<lambda>c. conv_id c = cid \<and> is_participant uid c) (tbl_conversations s)"

text \<open>The filter of \<^verbatim>\<open>getOrCreateConversation\<close>:
  \<^verbatim>\<open>or(and(participant_1.eq.a,participant_2.eq.b),and(participant_1.eq.b,participant_2.eq.a))\<close>.\<close>

definition between :: "uuid \<Rightarrow> uuid \<Rightarrow> conversation \<Rightarrow> bool" where
  "between a b c \<longleftrightarrow>
     (participant_1 c = a \<and> participant_2 c = b) \<or> (participant_1 c = b \<and> participant_2 c = a)"

definition select_conversation_between ::
  "uuid \<Rightarrow> uuid \<Rightarrow> uuid \<Rightarrow> backend \<Rightarrow> (store_error + uuid option) \<times> backend"
where
  "select_conversation_between uid a b s =
     (case maybeSingle (filter (\<lambda>c. is_participant uid c \<and> between a b c) (tbl_conversations s)) of
        Inl e \<Rightarrow> (Inl e, s)
      | Inr None \<Rightarrow> (Inr None, s)
      | Inr (Some c) \<Rightarrow> (Inr (Some (conv_id c)), s))"

text \<open>The unique index on
  \<^verbatim>\<open>(LEAST(participant_1, participant_2), GREATEST(participant_1, participant_2))\<close>.\<close>

definition same_pair :: "uuid \<Rightarrow> uuid \<Rightarrow> conversation \<Rightarrow> bool" where
  "same_pair a b c \<longleftrightarrow>
     min (participant_1 c) (participant_2 c) = min a b \<and>
     max (participant_1 c) (participant_2 c) = max a b"

text \<open>\<^verbatim>\<open>.insert({participant_1, participant_2}).select('id').single()\<close>. The database
  checks the policy first, then the \<^verbatim>\<open>CHECK\<close> constraint, then the unique index,
  and last the foreign keys of the two participants to \<^verbatim>\<open>profiles\<close>.\<close>

definition insert_conversation ::
  "uuid \<Rightarrow> uuid \<Rightarrow> uuid \<Rightarrow> backend \<Rightarrow> (store_error + uuid) \<times> backend"
where
  "insert_conversation uid p1 p2 s =
     (if \<not> (uid = p1 \<or> uid = p2) then (Inl RlsViolation, s)
      else if p1 = p2 then (Inl CheckViolation, s)
      else if list_ex (same_pair p1 p2) (tbl_conversations s) then (Inl UniqueViolation, s)
      else if \<not> (p1 \<in> set (tbl_profiles s) \<and> p2 \<in> set (tbl_profiles s))
        then (Inl ForeignKeyViolation, s)
      else
        let new_id = fresh_id (map conv_id (tbl_conversations s)) in
        (Inr new_id,
         s\<lparr>tbl_conversations :=
              tbl_conversations s @
              [\<lparr>conv_id = new_id, participant_1 = p1, participant_2 = p2\<rparr>]\<rparr>))"

text \<open>\<^verbatim>\<open>.select('id, participant_1, participant_2').or(participant_1.eq.u,participant_2.eq.u)\<close>.\<close>

definition select_conversations_of ::
  "uuid \<Rightarrow> uuid \<Rightarrow> backend \<Rightarrow> (store_error + conversation list) \<times> backend"
where
  "select_conversations_of uid u s =
     (Inr (filter (\<lambda>c. is_participant uid c \<and> is_participant u c) (tbl_conversations s)), s)"

text \<open>\<^verbatim>\<open>.select('*').eq('conversation_id', convId).order('created_at', {ascending: true})\<close>;
  rows created at the same instant keep their table order.\<close>

definition select_messages ::
  "uuid \<Rightarrow> uuid \<Rightarrow> backend \<Rightarrow> (store_error + message list) \<times> backend"
where
  "select_messages uid cid s =
     (Inr (sort_key created_at
             (filter (\<lambda>m. conversation_id m = cid \<and> can_access s uid (conversation_id m))
                (tbl_messages s))), s)"

text \<open>\<^verbatim>\<open>.select('*', {count: 'exact', head: true}).eq('conversation_id', c).eq('is_read', false).neq('sender_id', u)\<close>.\<close>

definition count_unread ::
  "uuid \<Rightarrow> uuid \<Rightarrow> uuid \<Rightarrow> backend \<Rightarrow> (store_error + nat) \<times> backend"
where
  "count_unread uid cid u s =
     (Inr (length
             (filter (\<lambda>m. conversation_id m = cid \<and> \<not> is_read m \<and> sender_id m \<noteq> u \<and>
                           can_access s uid (conversation_id m))
                (tbl_messages s))), s)"

text \<open>\<^verbatim>\<open>.update({is_read: true, read_at: t}).eq('id', messageId)\<close>.\<close>

definition update_message_read ::
  "uuid \<Rightarrow> uuid \<Rightarrow> timestamp \<Rightarrow> backend \<Rightarrow> (store_error + unit) \<times> backend"
where
  "update_message_read uid mid t s =
     (Inr (),
      s\<lparr>tbl_messages :=
           map (\<lambda>m. if msg_id m = mid \<and> can_access s uid (conversation_id m)
                    then m\<lparr>is_read := True, read_at := Some t\<rparr> else m)
             (tbl_messages s)\<rparr>)"

text \<open>What a column of type \<^verbatim>\<open>text\<close> can hold: the database refuses the code
  unit 0 (U+0000) and a surrogate code unit without its partner.\<close>

definition is_high_surrogate :: "16 word \<Rightarrow> bool" where
  "is_high_surrogate c \<longleftrightarrow> 55296 \<le> c \<and> c \<le> 56319"

definition is_low_surrogate :: "16 word \<Rightarrow> bool" where
  "is_low_surrogate c \<longleftrightarrow> 56320 \<le> c \<and> c \<le> 57343"

fun well_formed_utf16 :: "js_string \<Rightarrow> bool" where
  "well_formed_utf16 [] = True"
| "well_formed_utf16 [c] = (\<not> is_high_surrogate c \<and> \<not> is_low_surrogate c)"
| "well_formed_utf16 (c # d # rest) =
     (if is_high_surrogate c then is_low_surrogate d \<and> well_formed_utf16 rest
      else \<not> is_low_surrogate c \<and> well_formed_utf16 (d # rest))"

definition storable_text :: "js_string \<Rightarrow> bool" where
  "storable_text str \<longleftrightarrow> 0 \<notin> set str \<and> well_formed_utf16 str"

text \<open>\<^verbatim>\<open>.insert({conversation_id, sender_id, content, delivered_at})\<close>: the other
  columns take their defaults (\<^verbatim>\<open>is_read false\<close>, \<^verbatim>\<open>read_at\<close> null,
  \<^verbatim>\<open>created_at now()\<close>). The request body is read first, and a string that
  \<^verbatim>\<open>text\<close> cannot hold is refused. The policy demands that the sender is the
  session's user and a participant of the conversation, so the conversation exists;
  the foreign key of the sender to \<^verbatim>\<open>profiles\<close> is checked last.\<close>

definition insert_message ::
  "uuid \<Rightarrow> uuid \<Rightarrow> uuid \<Rightarrow> js_string \<Rightarrow> clock \<Rightarrow> backend \<Rightarrow> (store_error + unit) \<times> backend"
where
  "insert_message uid cid sender txt clk s =
     (if \<not> storable_text txt then (Inl InvalidText, s)
      else if \<not> (uid = sender \<and> can_access s uid cid) then (Inl RlsViolation, s)
      else if sender \<notin> set (tbl_profiles s) then (Inl ForeignKeyViolation, s)
      else
        (Inr (),
         s\<lparr>tbl_messages :=
              tbl_messages s @
              [\<lparr>msg_id = fresh_id (map msg_id (tbl_messages s)),
                conversation_id = cid,
                sender_id = sender,
                content = txt,
                is_read = False,
                delivered_at = Some (client_now clk),
                read_at = None,
                created_at = server_now clk\<rparr>]\<rparr>))"

text \<open>\<^verbatim>\<open>.select('id').eq('conversation_id', c).eq('user_id', u).maybeSingle()\<close>.\<close>

definition select_typing ::
  "uuid \<Rightarrow> uuid \<Rightarrow> uuid \<Rightarrow> backend \<Rightarrow> (store_error + uuid option) \<times> backend"
where
  "select_typing uid cid u s =
     (case maybeSingle
             (filter (\<lambda>t. ti_conversation_id t = cid \<and> user_id t = u \<and>
                           can_access s uid (ti_conversation_id t))
                (tbl_typing_indicators s)) of
        Inl e \<Rightarrow> (Inl e, s)
      | Inr None \<Rightarrow> (Inr None, s)
      | Inr (Some t) \<Rightarrow> (Inr (Some (ti_id t)), s))"

text \<open>\<^verbatim>\<open>.update({is_typing, updated_at}).eq('id', existing.id)\<close>; the policy admits
  the rows of the session's user.\<close>

definition update_typing ::
  "uuid \<Rightarrow> uuid \<Rightarrow> bool \<Rightarrow> timestamp \<Rightarrow> backend \<Rightarrow> (store_error + unit) \<times> backend"
where
  "update_typing uid tid typing t s =
     (Inr (),
      s\<lparr>tbl_typing_indicators :=
           map (\<lambda>r. if ti_id r = tid \<and> user_id r = uid
                    then r\<lparr>is_typing := typing, updated_at := t\<rparr> else r)
             (tbl_typing_indicators s)\<rparr>)"

text \<open>\<^verbatim>\<open>.insert({conversation_id, user_id, is_typing})\<close>: policy, then
  \<^verbatim>\<open>UNIQUE(conversation_id, user_id)\<close>, then the foreign keys to the conversation
  and to the user's profile.\<close>

definition insert_typing ::
  "uuid \<Rightarrow> uuid \<Rightarrow> uuid \<Rightarrow> bool \<Rightarrow> timestamp \<Rightarrow> backend \<Rightarrow> (store_error + unit) \<times> backend"
where
  "insert_typing uid cid u typing t s =
     (if uid \<noteq> u then (Inl RlsViolation, s)
      else if list_ex (\<lambda>r. ti_conversation_id r = cid \<and> user_id r = u) (tbl_typing_indicators s)
        then (Inl UniqueViolation, s)
      else if \<not> (list_ex (\<lambda>c. conv_id c = cid) (tbl_conversations s) \<and>
                   u \<in> set (tbl_profiles s))
        then (Inl ForeignKeyViolation, s)
      else
        (Inr (),
         s\<lparr>tbl_typing_indicators :=
              tbl_typing_indicators s @
              [\<lparr>ti_id = fresh_id (map ti_id (tbl_typing_indicators s)),
                ti_conversation_id = cid,
                user_id = u,
                is_typing = typing,
                updated_at = t\<rparr>]\<rparr>))"

section \<open>The chat window (ChatWindow.jsx)\<close>

text \<open>
  The closure variables of the component (\<^verbatim>\<open>user\<close>, \<^verbatim>\<open>selectedUser\<close>,
  \<^verbatim>\<open>conversationId\<close>) and its state \<^verbatim>\<open>messages\<close> are explicit arguments; a state
  setter is the new value in the result. The store answers the requests in the order
  in which they are issued. A function that its caller awaits runs to its end before
  the caller goes on; \<^verbatim>\<open>updateTypingIndicator\<close> is never awaited by the message
  input, so its lookup and its write are two steps, between which other requests can be
  issued. The result \<open>Inl e\<close> is a rejected promise (\<^verbatim>\<open>throw e\<close>), \<open>Inr v\<close> a
  resolved one.
\<close>

text \<open>\<^verbatim>\<open>String.prototype.trim\<close>: the white space and line terminator code units of
  ECMAScript are removed at both ends.\<close>

definition is_white_space :: "16 word \<Rightarrow> bool" where
  "is_white_space c \<longleftrightarrow>
     c = 9 \<or> c = 10 \<or> c = 11 \<or> c = 12 \<or> c = 13 \<or> c = 32 \<or> c = 160 \<or> c = 5760 \<or>
     (8192 \<le> c \<and> c \<le> 8202) \<or> c = 8232 \<or> c = 8233 \<or> c = 8239 \<or> c = 8287 \<or>
     c = 12288 \<or> c = 65279"

definition trim :: "js_string \<Rightarrow> js_string" where
  "trim str = rev (dropWhile is_white_space (rev (dropWhile is_white_space str)))"

text \<open>The writes other sessions commit while this one waits: each pair \<open>(a, b)\<close> is
  the insert of \<^verbatim>\<open>getOrCreateConversation\<close> run by user \<open>a\<close> towards \<open>b\<close>.\<close>

definition other_sessions :: "(uuid \<times> uuid) list \<Rightarrow> backend \<Rightarrow> backend" where
  "other_sessions concurrent s =
     foldl (\<lambda>s' (a, b). snd (insert_conversation a a b s')) s concurrent"

text \<open>\<^verbatim>\<open>getOrCreateConversation\<close>: \<open>concurrent\<close> is what other sessions insert
  between the awaited lookup and the awaited insert. The \<^verbatim>\<open>catch\<close> block logs and
  throws the same error again.\<close>

definition getOrCreateConversation ::
  "uuid \<Rightarrow> uuid \<Rightarrow> (uuid \<times> uuid) list \<Rightarrow> backend \<Rightarrow> (store_error + uuid) \<times> backend"
where
  "getOrCreateConversation user selectedUser concurrent s =
     (case request (select_conversation_between user user selectedUser) s of
        (Inl fetchError, s1) \<Rightarrow> (Inl fetchError, s1)
      | (Inr (Some existing), s1) \<Rightarrow> (Inr existing, s1)
      | (Inr None, s1) \<Rightarrow>
          (case request (insert_conversation user user selectedUser) (other_sessions concurrent s1) of
             (Inl createError, s2) \<Rightarrow> (Inl createError, s2)
           | (Inr newConversation, s2) \<Rightarrow> (Inr newConversation, s2)))"

text \<open>\<^verbatim>\<open>markMessageAsRead\<close>: the response of the update is not looked at.\<close>

definition markMessageAsRead :: "uuid \<Rightarrow> uuid \<Rightarrow> timestamp \<Rightarrow> backend \<Rightarrow> backend" where
  "markMessageAsRead user messageId now s =
     snd (request (update_message_read user messageId now) s)"

text \<open>The loop \<^verbatim>\<open>for (const msg of unreadMessages) await markMessageAsRead(msg.id)\<close>;
  \<open>date k\<close> is the reading of \<^verbatim>\<open>new Date()\<close> in the call for the \<open>k\<close>-th message.\<close>

fun mark_each :: "uuid \<Rightarrow> message list \<Rightarrow> (nat \<Rightarrow> timestamp) \<Rightarrow> nat \<Rightarrow> backend \<Rightarrow> backend" where
  "mark_each user [] date k s = s"
| "mark_each user (msg # rest) date k s =
     mark_each user rest date (Suc k) (markMessageAsRead user (msg_id msg) (date k) s)"

text \<open>\<^verbatim>\<open>loadMessages\<close>: the pair is the component's \<^verbatim>\<open>messages\<close> state and the
  backend. An error of the select is logged and nothing else happens.\<close>

fun loadMessages ::
  "uuid \<Rightarrow> uuid \<Rightarrow> (nat \<Rightarrow> timestamp) \<Rightarrow> message list \<times> backend \<Rightarrow> message list \<times> backend"
where
  "loadMessages user convId date (messages, s) =
     (case request (select_messages user convId) s of
        (Inl error, s1) \<Rightarrow> (messages, s1)
      | (Inr data, s1) \<Rightarrow>
          (data,
           mark_each user (filter (\<lambda>msg. sender_id msg \<noteq> user \<and> \<not> is_read msg) data) date 0 s1))"

text \<open>\<^verbatim>\<open>handleSendMessage\<close>: \<^verbatim>\<open>if (!conversationId || !content.trim()) return\<close>,
  then the insert, whose error is caught and logged. No path throws.\<close>

definition handleSendMessage ::
  "uuid option \<Rightarrow> uuid \<Rightarrow> js_string \<Rightarrow> clock \<Rightarrow> backend \<Rightarrow> (store_error + unit) \<times> backend"
where
  "handleSendMessage conversationId user txt clk s =
     (case conversationId of
        None \<Rightarrow> (Inr (), s)
      | Some cid \<Rightarrow>
          if trim txt = [] then (Inr (), s)
          else (Inr (), snd (request (insert_message user cid user (trim txt) clk) s)))"

text \<open>The awaited lookup of \<^verbatim>\<open>updateTypingIndicator\<close>: only \<^verbatim>\<open>data\<close> of the
  response is read, so a failed lookup counts as no row.\<close>

definition typing_lookup :: "uuid \<Rightarrow> uuid \<Rightarrow> backend \<Rightarrow> uuid option \<times> backend" where
  "typing_lookup user cid s =
     (case request (select_typing user cid user) s of
        (Inr existing, s1) \<Rightarrow> (existing, s1)
      | (Inl e, s1) \<Rightarrow> (None, s1))"

text \<open>What \<^verbatim>\<open>updateTypingIndicator\<close> does once the lookup has answered
  \<open>existing\<close>: the update by id, or the insert; neither response is looked at.\<close>

definition typing_write ::
  "uuid \<Rightarrow> uuid \<Rightarrow> bool \<Rightarrow> clock \<Rightarrow> uuid option \<Rightarrow> backend \<Rightarrow> backend"
where
  "typing_write user cid typing clk existing s =
     (case existing of
        Some row_id \<Rightarrow> snd (request (update_typing user row_id typing (client_now clk)) s)
      | None \<Rightarrow> snd (request (insert_typing user cid user typing (server_now clk)) s))"

text \<open>\<^verbatim>\<open>updateTypingIndicator\<close>, run from its start to its end with no other
  request in between.\<close>

definition updateTypingIndicator ::
  "uuid option \<Rightarrow> uuid \<Rightarrow> bool \<Rightarrow> clock \<Rightarrow> backend \<Rightarrow> backend"
where
  "updateTypingIndicator conversationId user typing clk s =
     (case conversationId of
        None \<Rightarrow> s
      | Some cid \<Rightarrow>
          (case typing_lookup user cid s of
             (existing, s1) \<Rightarrow> typing_write user cid typing clk existing s1))"

text \<open>The change events of the \<^verbatim>\<open>messages\<close> table, with \<^verbatim>\<open>payload.new\<close> (for a
  delete, \<^verbatim>\<open>payload.old\<close>).\<close>

datatype change_event = INSERT message | UPDATE message | DELETE message

text \<open>\<^verbatim>\<open>messagesChannel\<close>: the subscription exists once \<^verbatim>\<open>conversationId\<close> is set,
  the server filters by \<^verbatim>\<open>conversation_id=eq.${conversationId}\<close>, and handlers are
  registered for \<^verbatim>\<open>INSERT\<close> and \<^verbatim>\<open>UPDATE\<close>.\<close>

fun messagesChannel ::
  "uuid option \<Rightarrow> uuid \<Rightarrow> timestamp \<Rightarrow> change_event \<Rightarrow> message list \<times> backend \<Rightarrow>
   message list \<times> backend"
where
  "messagesChannel None user now ev (prev, s) = (prev, s)"
| "messagesChannel (Some cid) user now (INSERT new) (prev, s) =
     (if conversation_id new = cid
      then (prev @ [new],
            if sender_id new \<noteq> user then markMessageAsRead user (msg_id new) now s else s)
      else (prev, s))"
| "messagesChannel (Some cid) user now (UPDATE new) (prev, s) =
     (if conversation_id new = cid
      then (map (\<lambda>msg. if msg_id msg = msg_id new then new else msg) prev, s)
      else (prev, s))"
| "messagesChannel (Some cid) user now (DELETE old) (prev, s) = (prev, s)"

section \<open>The message input (MessageInput.jsx)\<close>

text \<open>\<^verbatim>\<open>handleSubmit\<close>, with \<^verbatim>\<open>onTyping = updateTypingIndicator\<close> and
  \<^verbatim>\<open>onSendMessage = handleSendMessage\<close> as \<^verbatim>\<open>ChatWindow\<close> passes them. The pair is
  the input's \<^verbatim>\<open>message\<close> state and the backend. \<^verbatim>\<open>onTyping(false)\<close> is not
  awaited: it issues its lookup and returns, \<^verbatim>\<open>handleSendMessage\<close> issues the insert
  of the message, and the write of the typing indicator follows when the lookup has
  answered. Without a conversation neither callback issues a request.\<close>

fun handleSubmit ::
  "bool \<Rightarrow> uuid option \<Rightarrow> uuid \<Rightarrow> clock \<Rightarrow> clock \<Rightarrow> js_string \<times> backend \<Rightarrow>
   (store_error + unit) \<times> js_string \<times> backend"
where
  "handleSubmit disabled conversationId user clk_typing clk_send (message, s) =
     (if trim message = [] \<or> disabled then (Inr (), message, s)
      else
        (case conversationId of
           None \<Rightarrow> (Inr (), [], s)
         | Some cid \<Rightarrow>
             (case typing_lookup user cid s of
                (existing, s1) \<Rightarrow>
                  (case handleSendMessage (Some cid) user (trim message) clk_send s1 of
                     (r, s2) \<Rightarrow>
                       (r, [], typing_write user cid False clk_typing existing s2)))))"

text \<open>\<^verbatim>\<open>handleChange\<close> calls \<^verbatim>\<open>onTyping(true)\<close> on every keystroke and its timer
  calls \<^verbatim>\<open>onTyping(false)\<close>, none of them awaited, so a call can start while earlier
  ones still wait for their lookup. \<open>Call flag clk\<close> is a call that issues its lookup;
  \<open>Resume k\<close> is the \<open>k\<close>-th of the waiting calls receiving its answer and
  writing. A waiting call is its flag, its clock readings and the answer of its
  lookup.\<close>

datatype typing_event = Call bool clock | Resume nat

type_synonym waiting = "(bool \<times> clock \<times> uuid option) list"

fun typing_step :: "uuid \<Rightarrow> uuid \<Rightarrow> typing_event \<Rightarrow> waiting \<times> backend \<Rightarrow> waiting \<times> backend" where
  "typing_step cid user (Call flag clk) (w, s) =
     (case typing_lookup user cid s of
        (existing, s1) \<Rightarrow> (w @ [(flag, clk, existing)], s1))"
| "typing_step cid user (Resume k) (w, s) =
     (if k < length w
      then (case w ! k of
              (flag, clk, existing) \<Rightarrow>
                (take k w @ drop (Suc k) w, typing_write user cid flag clk existing s))
      else (w, s))"

definition typing_run ::
  "uuid \<Rightarrow> uuid \<Rightarrow> typing_event list \<Rightarrow> waiting \<times> backend \<Rightarrow> waiting \<times> backend"
where
  "typing_run cid user events ws = foldl (\<lambda>ws' ev. typing_step cid user ev ws') ws events"

text \<open>The events of calls that each end before the next one starts.\<close>

definition one_by_one :: "(bool \<times> clock) list \<Rightarrow> typing_event list" where
  "one_by_one calls = concat (map (\<lambda>(flag, clk). [Call flag clk, Resume 0]) calls)"

section \<open>The unread counters (useUnreadMessages.js)\<close>

text \<open>The loop over the conversations: \<^verbatim>\<open>counts[otherUserId] = count || 0\<close> unless
  the count request failed.\<close>

definition otherUserId :: "uuid \<Rightarrow> conversation \<Rightarrow> uuid" where
  "otherUserId u conv =
     (if participant_1 conv = u then participant_2 conv else participant_1 conv)"

fun count_each ::
  "uuid \<Rightarrow> conversation list \<Rightarrow> (uuid \<rightharpoonup> nat) \<Rightarrow> backend \<Rightarrow> (uuid \<rightharpoonup> nat) \<times> backend"
where
  "count_each u [] counts s = (counts, s)"
| "count_each u (conv # rest) counts s =
     (case request (count_unread u (conv_id conv) u) s of
        (Inl countError, s1) \<Rightarrow> count_each u rest counts s1
      | (Inr count, s1) \<Rightarrow> count_each u rest (counts(otherUserId u conv \<mapsto> count)) s1)"

text \<open>\<^verbatim>\<open>fetchUnreadCounts\<close>: the pair is the hook's \<^verbatim>\<open>unreadCounts\<close> state and the
  backend; \<^verbatim>\<open>user\<close> is null before sign-in.\<close>

fun fetchUnreadCounts ::
  "uuid option \<Rightarrow> (uuid \<rightharpoonup> nat) \<times> backend \<Rightarrow> (uuid \<rightharpoonup> nat) \<times> backend"
where
  "fetchUnreadCounts None (unreadCounts, s) = (unreadCounts, s)"
| "fetchUnreadCounts (Some u) (unreadCounts, s) =
     (case request (select_conversations_of u u) s of
        (Inl convError, s1) \<Rightarrow> (unreadCounts, s1)
      | (Inr conversations, s1) \<Rightarrow> count_each u conversations Map.empty s1)"

section \<open>Reachable backends\<close>

text \<open>The backends that the client's operations produce from empty tables, under any
  registered profiles, users, arguments, clock readings and connection quality. The two
  steps of \<^verbatim>\<open>updateTypingIndicator\<close> are operations of their own, the write with
  any answer of an earlier lookup.\<close>

inductive reachable :: "backend \<Rightarrow> bool" where
  init: "reachable \<lparr>tbl_profiles = ps, tbl_conversations = [], tbl_messages = [],
                    tbl_typing_indicators = [], outages = fs\<rparr>"
| connection: "reachable s \<Longrightarrow> reachable (s\<lparr>outages := fs\<rparr>)"
| signup: "reachable s \<Longrightarrow> reachable (s\<lparr>tbl_profiles := tbl_profiles s @ [u]\<rparr>)"
| asked: "reachable s \<Longrightarrow> reachable (snd (typing_lookup user cid s))"
| written: "reachable s \<Longrightarrow> reachable (typing_write user cid flag clk existing s)"
| resolve: "reachable s \<Longrightarrow> reachable (snd (getOrCreateConversation user selectedUser concurrent s))"
| load: "reachable s \<Longrightarrow> reachable (snd (loadMessages user convId date (prev, s)))"
| mark: "reachable s \<Longrightarrow> reachable (markMessageAsRead user messageId now s)"
| send: "reachable s \<Longrightarrow> reachable (snd (handleSendMessage conversationId user txt clk s))"
| typing: "reachable s \<Longrightarrow> reachable (updateTypingIndicator conversationId user flag clk s)"
| event: "reachable s \<Longrightarrow> reachable (snd (messagesChannel conversationId user now ev (prev, s)))"
| submit: "reachable s \<Longrightarrow>
           reachable (snd (snd (handleSubmit disabled conversationId user clk1 clk2 (txt, s))))"
| unread: "reachable s \<Longrightarrow> reachable (snd (fetchUnreadCounts user (counts, s)))"

section \<open>Reference definitions and concrete backends\<close>

text \<open>The reconciliation rule in the specification's words: an event's row replaces
  the local entry with its id, and is appended when there is none.\<close>

definition merge_by_id :: "message \<Rightarrow> message list \<Rightarrow> message list" where
  "merge_by_id new prev =
     (if list_ex (\<lambda>msg. msg_id msg = msg_id new) prev
      then map (\<lambda>msg. if msg_id msg = msg_id new then new else msg) prev
      else prev @ [new])"

text \<open>The constraints of the schema on a backend: the unique index of
  \<^verbatim>\<open>conversations\<close> on the ordered pair of participants, the primary key of
  \<^verbatim>\<open>messages\<close>, and \<^verbatim>\<open>UNIQUE(conversation_id, user_id)\<close> of
  \<^verbatim>\<open>typing_indicators\<close>.\<close>

definition pair_key :: "conversation \<Rightarrow> uuid \<times> uuid" where
  "pair_key c =
     (min (participant_1 c) (participant_2 c), max (participant_1 c) (participant_2 c))"

definition unique_pairs :: "backend \<Rightarrow> bool" where
  "unique_pairs s \<longleftrightarrow> distinct (map pair_key (tbl_conversations s))"

definition unique_message_ids :: "backend \<Rightarrow> bool" where
  "unique_message_ids s \<longleftrightarrow> distinct (map msg_id (tbl_messages s))"

definition unique_typing :: "backend \<Rightarrow> bool" where
  "unique_typing s \<longleftrightarrow>
     distinct (map (\<lambda>r. (ti_conversation_id r, user_id r)) (tbl_typing_indicators s))"

text \<open>A backend with one conversation between the registered users 1 and 2 and one
  unread message of user 2; the same two users with the chat tables empty; a pair of
  clock readings.\<close>

definition demo_message :: message where
  "demo_message =
     \<lparr>msg_id = 1, conversation_id = 1, sender_id = 2, content = [72, 105],
      is_read = False, delivered_at = Some 3, read_at = None, created_at = 3\<rparr>"

definition demo_backend :: backend where
  "demo_backend =
     \<lparr>tbl_profiles = [1, 2],
      tbl_conversations = [\<lparr>conv_id = 1, participant_1 = 1, participant_2 = 2\<rparr>],
      tbl_messages = [demo_message],
      tbl_typing_indicators = [],
      outages = []\<rparr>"

definition empty_backend :: backend where
  "empty_backend =
     \<lparr>tbl_profiles = [1, 2], tbl_conversations = [], tbl_messages = [],
      tbl_typing_indicators = [], outages = []\<rparr>"

definition demo_clock :: clock where
  "demo_clock = \<lparr>client_now = 7, server_now = 8\<rparr>"

text \<open>User 1 talks to users 2 and 3: two unread messages of user 2, an unread one of
  user 1, a read one of user 3, and a conversation user 1 is not part of.\<close>

definition demo_inbox :: backend where
  "demo_inbox =
     \<lparr>tbl_profiles = [1, 2, 3],
      tbl_conversations =
        [\<lparr>conv_id = 1, participant_1 = 1, participant_2 = 2\<rparr>,
         \<lparr>conv_id = 2, participant_1 = 3, participant_2 = 1\<rparr>,
         \<lparr>conv_id = 3, participant_1 = 2, participant_2 = 3\<rparr>],
      tbl_messages =
        [\<lparr>msg_id = 1, conversation_id = 1, sender_id = 2, content = [72, 105],
          is_read = False, delivered_at = Some 3, read_at = None, created_at = 3\<rparr>,
         \<lparr>msg_id = 2, conversation_id = 1, sender_id = 1, content = [79, 75],
          is_read = False, delivered_at = Some 4, read_at = None, created_at = 4\<rparr>,
         \<lparr>msg_id = 3, conversation_id = 1, sender_id = 2, content = [63],
          is_read = False, delivered_at = Some 5, read_at = None, created_at = 5\<rparr>,
         \<lparr>msg_id = 4, conversation_id = 2, sender_id = 3, content = [89, 111],
          is_read = True, delivered_at = Some 6, read_at = Some 7, created_at = 6\<rparr>,
         \<lparr>msg_id = 5, conversation_id = 3, sender_id = 3, content = [90],
          is_read = False, delivered_at = Some 8, read_at = None, created_at = 8\<rparr>],
      tbl_typing_indicators = [],
      outages = []\<rparr>"

text \<open>The columns \<^verbatim>\<open>is_read\<close> and \<^verbatim>\<open>read_at\<close> agree in every row.\<close>

definition read_mirror :: "backend \<Rightarrow> bool" where
  "read_mirror s \<longleftrightarrow> list_all (\<lambda>m. is_read m = (read_at m \<noteq> None)) (tbl_messages s)"

text \<open>User 1 resolves the conversation with user 2 on empty tables and sends the text Hi;
  then user 2 marks the message read.\<close>

definition demo_sent :: backend where
  "demo_sent =
     snd (handleSendMessage (Some 1) 1 [72, 105] demo_clock
            (snd (getOrCreateConversation 1 2 [] empty_backend)))"

definition demo_read :: backend where
  "demo_read = markMessageAsRead 2 1 9 demo_sent"

text \<open>What the marking loop does to one stored row: \<open>acc\<close> says which conversations
  the policy lets the user update, \<open>ms\<close> are the messages still to be marked and
  \<open>k\<close> is the number of the next call.\<close>

fun marked :: "(uuid \<Rightarrow> bool) \<Rightarrow> message list \<Rightarrow> (nat \<Rightarrow> timestamp) \<Rightarrow> nat \<Rightarrow> message \<Rightarrow> message" where
  "marked acc [] date k r = r"
| "marked acc (m # ms) date k r =
     marked acc ms date (Suc k)
       (if msg_id r = msg_id m \<and> acc (conversation_id r)
        then r\<lparr>is_read := True, read_at := Some (date k)\<rparr> else r)"

text \<open>User 1 opens the conversation with user 2 in \<open>demo_inbox\<close>; the \<open>k\<close>-th
  reading of the clock is \<open>10 + k\<close>.\<close>

definition demo_loaded :: "message list \<times> backend" where
  "demo_loaded = loadMessages 1 1 (\<lambda>k. 10 + k) ([], demo_inbox)"

text \<open>The rows of \<^verbatim>\<open>typing_indicators\<close> of a conversation and a user.\<close>

definition typing_rows :: "uuid \<Rightarrow> uuid \<Rightarrow> backend \<Rightarrow> typing_indicator list" where
  "typing_rows cid user s =
     filter (\<lambda>r. ti_conversation_id r = cid \<and> user_id r = user) (tbl_typing_indicators s)"

text \<open>The events that start a call.\<close>

fun is_call :: "typing_event \<Rightarrow> bool" where
  "is_call (Call flag clk) = True"
| "is_call (Resume k) = False"

text \<open>A run of typing calls of a registered participant on a working connection: the
  pair has at most one row, and it has one once the lookup of a waiting call has
  found one.\<close>

definition typing_calm :: "uuid \<Rightarrow> uuid \<Rightarrow> waiting \<times> backend \<Rightarrow> bool" where
  "typing_calm cid user ws \<longleftrightarrow>
     outages (snd ws) = [] \<and> can_access (snd ws) user cid \<and>
     user \<in> set (tbl_profiles (snd ws)) \<and>
     length (typing_rows cid user (snd ws)) \<le> 1 \<and>
     (typing_rows cid user (snd ws) = [] \<longrightarrow>
        list_all (\<lambda>(flag, clk, existing). existing = None) (fst ws))"

text \<open>A property of the chat tables that no connection failure and no registration
  touches and that each writing request of the store keeps.\<close>

definition kept_by_store :: "(backend \<Rightarrow> bool) \<Rightarrow> bool" where
  "kept_by_store I \<longleftrightarrow>
     (\<forall>s fs. I (s\<lparr>outages := fs\<rparr>) = I s) \<and>
     (\<forall>s ps. I (s\<lparr>tbl_profiles := ps\<rparr>) = I s) \<and>
     (\<forall>s uid a b. I s \<longrightarrow> I (snd (insert_conversation uid a b s))) \<and>
     (\<forall>s uid mid t. I s \<longrightarrow> I (snd (update_message_read uid mid t s))) \<and>
     (\<forall>s uid cid sender str clk. I s \<longrightarrow> I (snd (insert_message uid cid sender str clk s))) \<and>
     (\<forall>s uid tid flag t. I s \<longrightarrow> I (snd (update_typing uid tid flag t s))) \<and>
     (\<forall>s uid cid u flag t. I s \<longrightarrow> I (snd (insert_typing uid cid u flag t s)))"

section \<open>Requests on a connection without failures\<close>

lemma request_quiet: "outages s = [] \<Longrightarrow> request q s = q s"
  by (simp add: request_def)

lemma can_access_messages_upd [simp]: "can_access (s\<lparr>tbl_messages := ms\<rparr>) = can_access s"
  by (simp add: can_access_def fun_eq_iff)

lemma can_access_outages_upd [simp]: "can_access (s\<lparr>outages := fs\<rparr>) = can_access s"
  by (simp add: can_access_def fun_eq_iff)

lemma markMessageAsRead_quiet:
  "outages s = [] \<Longrightarrow>
   markMessageAsRead user mid t s =
     s\<lparr>tbl_messages :=
         map (\<lambda>m. if msg_id m = mid \<and> can_access s user (conversation_id m)
                  then m\<lparr>is_read := True, read_at := Some t\<rparr> else m)
           (tbl_messages s)\<rparr>"
  by (simp add: markMessageAsRead_def request_quiet update_message_read_def)

lemma markMessageAsRead_outages:
  "outages s = [] \<Longrightarrow> outages (markMessageAsRead user mid t s) = []"
  by (simp add: markMessageAsRead_quiet)

section \<open>Marking a message read twice\<close>

text \<open>
  C5, as the specification states it: a second \<^verbatim>\<open>markMessageAsRead\<close> on the same
  message leaves \<^verbatim>\<open>read_at\<close> as the first call set it. The source does not do that:
  user 1 marks message 1 at time 5 and again at time 9, and \<^verbatim>\<open>read_at\<close> goes from
  5 to 9.
\<close>

theorem markMessageAsRead_twice_counterexample:
  "map read_at (tbl_messages (markMessageAsRead 1 1 5 demo_backend)) = [Some 5] \<and>
   map read_at (tbl_messages (markMessageAsRead 1 1 9 (markMessageAsRead 1 1 5 demo_backend)))
     = [Some 9]"
  by (simp add: markMessageAsRead_def request_def update_message_read_def demo_backend_def
      demo_message_def can_access_def is_participant_def)

text \<open>
  C5, amended: on a connection without failures, marking a message read at time
  \<open>t1\<close> and again at time \<open>t2\<close> is no error and gives the store that the single
  call at \<open>t2\<close> gives: every row with that id which the user may update has
  \<^verbatim>\<open>is_read\<close> true and \<^verbatim>\<open>read_at\<close> equal to \<open>t2\<close>, the time of the second call,
  and nothing else has changed.
\<close>

theorem markMessageAsRead_twice:
  assumes "outages s = []"
  shows "markMessageAsRead user mid t2 (markMessageAsRead user mid t1 s)
           = markMessageAsRead user mid t2 s \<and>
         markMessageAsRead user mid t2 (markMessageAsRead user mid t1 s)
           = s\<lparr>tbl_messages :=
                 map (\<lambda>m. if msg_id m = mid \<and> can_access s user (conversation_id m)
                          then m\<lparr>is_read := True, read_at := Some t2\<rparr> else m)
                   (tbl_messages s)\<rparr>"
proof -
  have q: "outages (markMessageAsRead user mid t1 s) = []"
    using assms by (rule markMessageAsRead_outages)
  have "markMessageAsRead user mid t2 (markMessageAsRead user mid t1 s)
          = markMessageAsRead user mid t2 s"
    unfolding markMessageAsRead_quiet [OF q]
    unfolding markMessageAsRead_quiet [OF assms]
    by (simp add: comp_def cong: if_cong)
  then show ?thesis
    by (simp only: markMessageAsRead_quiet [OF assms] simp_thms)
qed

theorem markMessageAsRead_twice_witness:
  "markMessageAsRead 1 1 9 (markMessageAsRead 1 1 5 demo_backend)
     = markMessageAsRead 1 1 9 demo_backend \<and>
   tbl_messages (markMessageAsRead 1 1 5 demo_backend)
     = [demo_message\<lparr>is_read := True, read_at := Some 5\<rparr>] \<and>
   tbl_messages (markMessageAsRead 1 1 9 (markMessageAsRead 1 1 5 demo_backend))
     = [demo_message\<lparr>is_read := True, read_at := Some 9\<rparr>]"
  using markMessageAsRead_twice [of demo_backend 1 1 9 5]
  by (simp add: demo_backend_def demo_message_def markMessageAsRead_quiet can_access_def
      is_participant_def)

section \<open>Change events and the local message list\<close>

text \<open>
  C6, as the specification states it: an event's row replaces the local entry with its
  id, or is appended when there is none, for \<^verbatim>\<open>INSERT\<close> and \<^verbatim>\<open>UPDATE\<close> alike. The
  source appends on every \<^verbatim>\<open>INSERT\<close>, so an id already in the list is there twice
  afterwards, and it only maps over the list on \<^verbatim>\<open>UPDATE\<close>, so an absent id is not
  appended.
\<close>

theorem merge_by_id_counterexample:
  "fst (messagesChannel (Some 1) 1 9 (INSERT (demo_message\<lparr>is_read := True\<rparr>))
          ([demo_message], demo_backend))
     = [demo_message, demo_message\<lparr>is_read := True\<rparr>] \<and>
   merge_by_id (demo_message\<lparr>is_read := True\<rparr>) [demo_message]
     = [demo_message\<lparr>is_read := True\<rparr>] \<and>
   fst (messagesChannel (Some 1) 1 9 (UPDATE demo_message) ([], demo_backend)) = [] \<and>
   merge_by_id demo_message [] = [demo_message]"
  by (simp add: merge_by_id_def demo_message_def)

text \<open>
  C6, amended: for an event of the subscribed conversation, \<^verbatim>\<open>INSERT\<close> appends the
  row whatever the list holds, and \<^verbatim>\<open>UPDATE\<close> replaces in place every entry with the
  row's id and appends nothing. So the merge by id is what happens on an \<^verbatim>\<open>INSERT\<close>
  whose id is not in the list and on an \<^verbatim>\<open>UPDATE\<close> whose id is.
\<close>

theorem messagesChannel_local_list:
  assumes "conversation_id new = cid"
  shows "fst (messagesChannel (Some cid) user now (INSERT new) (prev, s)) = prev @ [new] \<and>
         fst (messagesChannel (Some cid) user now (UPDATE new) (prev, s))
           = map (\<lambda>msg. if msg_id msg = msg_id new then new else msg) prev \<and>
         (\<not> list_ex (\<lambda>msg. msg_id msg = msg_id new) prev \<longrightarrow>
            fst (messagesChannel (Some cid) user now (INSERT new) (prev, s)) = merge_by_id new prev) \<and>
         (list_ex (\<lambda>msg. msg_id msg = msg_id new) prev \<longrightarrow>
            fst (messagesChannel (Some cid) user now (UPDATE new) (prev, s)) = merge_by_id new prev)"
  using assms by (simp add: merge_by_id_def)

theorem messagesChannel_local_list_witness:
  "fst (messagesChannel (Some 1) 1 9 (INSERT demo_message) ([], demo_backend)) = [demo_message] \<and>
   merge_by_id demo_message [] = [demo_message] \<and>
   fst (messagesChannel (Some 1) 1 9 (UPDATE (demo_message\<lparr>is_read := True\<rparr>))
          ([demo_message], demo_backend)) = [demo_message\<lparr>is_read := True\<rparr>] \<and>
   merge_by_id (demo_message\<lparr>is_read := True\<rparr>) [demo_message] = [demo_message\<lparr>is_read := True\<rparr>]"
  using messagesChannel_local_list [of demo_message 1 1 9 "[]" demo_backend]
    messagesChannel_local_list [of "demo_message\<lparr>is_read := True\<rparr>" 1 1 9 "[demo_message]" demo_backend]
  by (simp add: demo_message_def merge_by_id_def)

text \<open>
  C10: with the subscription of conversation \<open>cid\<close> open, an \<^verbatim>\<open>INSERT\<close> event of
  that conversation whose sender is not the current user runs
  \<^verbatim>\<open>markMessageAsRead\<close> on the row's id, which on a working connection marks the
  stored row read at that moment; for a row of the current user the backend is left as
  it is.
\<close>

theorem insert_event_marks_read:
  assumes "outages s = []" and "conversation_id new = cid"
  shows "snd (messagesChannel (Some cid) user now (INSERT new) (prev, s))
           = (if sender_id new \<noteq> user then markMessageAsRead user (msg_id new) now s else s) \<and>
         (sender_id new \<noteq> user \<and> can_access s user cid \<and> new \<in> set (tbl_messages s) \<longrightarrow>
            new\<lparr>is_read := True, read_at := Some now\<rparr>
              \<in> set (tbl_messages (snd (messagesChannel (Some cid) user now (INSERT new) (prev, s)))))"
  using assms by (auto simp: markMessageAsRead_quiet image_iff intro!: bexI [of _ new])

theorem insert_event_marks_read_witness:
  "snd (messagesChannel (Some 1) 1 9 (INSERT demo_message) ([], demo_backend))
     = markMessageAsRead 1 1 9 demo_backend \<and>
   tbl_messages (snd (messagesChannel (Some 1) 1 9 (INSERT demo_message) ([], demo_backend)))
     = [demo_message\<lparr>is_read := True, read_at := Some 9\<rparr>] \<and>
   snd (messagesChannel (Some 1) 2 9 (INSERT demo_message) ([], demo_backend)) = demo_backend"
  using insert_event_marks_read [of demo_backend demo_message 1 1 9 "[]"]
    insert_event_marks_read [of demo_backend demo_message 1 2 9 "[]"]
  by (simp add: demo_backend_def demo_message_def markMessageAsRead_quiet can_access_def
      is_participant_def)

section \<open>Sending a message\<close>

lemma dropWhile_all: "dropWhile P xs = [] \<longleftrightarrow> list_all P xs"
  by (simp add: dropWhile_eq_Nil_conv list_all_iff)

lemma dropWhile_rest: "list_all P (dropWhile P xs) \<Longrightarrow> dropWhile P xs = []"
  by (induction xs) (auto split: if_splits)

text \<open>The trimmed string is empty exactly for the empty string and for strings of
  white space only.\<close>

lemma trim_empty_iff: "trim str = [] \<longleftrightarrow> list_all is_white_space str"
proof
  assume "trim str = []"
  then have "list_all is_white_space (dropWhile is_white_space str)"
    by (simp add: trim_def dropWhile_all list_all_iff)
  then have "dropWhile is_white_space str = []" by (rule dropWhile_rest)
  then show "list_all is_white_space str" by (simp only: dropWhile_all)
next
  assume "list_all is_white_space str"
  then have "dropWhile is_white_space str = []" by (simp only: dropWhile_all)
  then show "trim str = []" by (simp add: trim_def del: dropWhile_eq_Nil_conv)
qed

text \<open>Trimming a trimmed string changes nothing.\<close>

lemma trim_trim: "trim (trim str) = trim str"
proof -
  let ?y = "dropWhile is_white_space str"
  let ?z = "dropWhile is_white_space (rev ?y)"
  have "dropWhile is_white_space (rev ?z) = rev ?z"
  proof (cases "?z = []")
    case True
    then show ?thesis by (simp only: rev.simps dropWhile.simps)
  next
    case False
    have "rev ?y = takeWhile is_white_space (rev ?y) @ ?z"
      by (simp only: takeWhile_dropWhile_id)
    then have "last (rev ?y) = last ?z"
      using False by (metis last_appendR)
    moreover have "?y \<noteq> []"
      using False by (metis dropWhile.simps(1) rev.simps(1))
    ultimately have "hd (rev ?z) = hd ?y"
      using False by (simp add: hd_rev last_rev del: dropWhile_eq_Nil_conv)
    moreover have "\<not> is_white_space (hd ?y)"
      using \<open>?y \<noteq> []\<close> by (rule hd_dropWhile)
    ultimately have "\<not> is_white_space (hd (rev ?z))"
      by simp
    then show ?thesis
      using False by (cases "rev ?z") (simp_all del: dropWhile_eq_Nil_conv)
  qed
  moreover have "dropWhile is_white_space ?z = ?z"
    by (rule dropWhile_idem)
  ultimately show ?thesis
    by (simp only: trim_def rev_rev_ident)
qed

text \<open>
  C8, as the specification states it: sending a blank string fails with
  \<open>ValidationError\<close>. The source returns instead: for the string of a space, a tab
  and a space, \<^verbatim>\<open>handleSendMessage\<close> and \<^verbatim>\<open>handleSubmit\<close> both resolve, with
  the backend (and the input's text) as they were.
\<close>

theorem blank_message_counterexample:
  "fst (handleSendMessage (Some 1) 1 [32, 9, 32] demo_clock demo_backend) \<noteq> Inl ValidationError \<and>
   handleSendMessage (Some 1) 1 [32, 9, 32] demo_clock demo_backend = (Inr (), demo_backend) \<and>
   handleSubmit False (Some 1) 1 demo_clock demo_clock ([32, 9, 32], demo_backend)
     = (Inr (), [32, 9, 32], demo_backend)"
  by (simp add: handleSendMessage_def trim_def is_white_space_def)

text \<open>What the typing steps of \<^verbatim>\<open>handleSubmit\<close> leave alone.\<close>

lemma typing_lookup_quiet:
  "outages s = [] \<Longrightarrow> snd (typing_lookup user cid s) = s"
  by (simp add: typing_lookup_def request_quiet select_typing_def
      split: sum.splits option.splits)

lemma typing_write_messages [simp]:
  "tbl_messages (typing_write user cid flag clk existing s) = tbl_messages s"
  by (simp add: typing_write_def request_def update_typing_def insert_typing_def
      split: option.splits list.splits)

text \<open>
  C8, amended: for a string that is empty or white space only, \<^verbatim>\<open>handleSendMessage\<close>
  and \<^verbatim>\<open>handleSubmit\<close> return without an error and without a store request. For any
  other string, on a working connection and with a conversation open,
  \<^verbatim>\<open>handleSendMessage\<close> returns without an error as well. It appends one row that
  carries the trimmed string, the client's clock reading as \<^verbatim>\<open>delivered_at\<close>,
  \<^verbatim>\<open>is_read\<close> false and no \<^verbatim>\<open>read_at\<close> when the user has a profile and is a
  participant of the conversation and the trimmed string is one that the column can
  hold; it stores nothing when the user is no participant, has no profile, or the
  trimmed string contains U+0000 or a surrogate without its partner. \<^verbatim>\<open>handleSubmit\<close> on such a string clears the input
  and leaves the messages that \<^verbatim>\<open>handleSendMessage\<close> leaves.
\<close>

theorem handleSendMessage_blank_or_sent:
  "(list_all is_white_space txt \<longrightarrow>
      handleSendMessage conversationId user txt clk s = (Inr (), s) \<and>
      handleSubmit disabled conversationId user clk' clk (txt, s) = (Inr (), txt, s)) \<and>
   (\<not> list_all is_white_space txt \<and> outages s = [] \<and> can_access s user cid \<and>
    user \<in> set (tbl_profiles s) \<and> storable_text (trim txt) \<longrightarrow>
      handleSendMessage (Some cid) user txt clk s =
        (Inr (),
         s\<lparr>tbl_messages :=
              tbl_messages s @
              [\<lparr>msg_id = fresh_id (map msg_id (tbl_messages s)),
                conversation_id = cid,
                sender_id = user,
                content = trim txt,
                is_read = False,
                delivered_at = Some (client_now clk),
                read_at = None,
                created_at = server_now clk\<rparr>]\<rparr>)) \<and>
   (\<not> list_all is_white_space txt \<and> outages s = [] \<and>
    (\<not> storable_text (trim txt) \<or> \<not> can_access s user cid \<or>
     user \<notin> set (tbl_profiles s)) \<longrightarrow>
      handleSendMessage (Some cid) user txt clk s = (Inr (), s)) \<and>
   (\<not> list_all is_white_space txt \<and> outages s = [] \<longrightarrow>
      fst (handleSubmit False (Some cid) user clk' clk (txt, s)) = Inr () \<and>
      fst (snd (handleSubmit False (Some cid) user clk' clk (txt, s))) = [] \<and>
      tbl_messages (snd (snd (handleSubmit False (Some cid) user clk' clk (txt, s))))
        = tbl_messages (snd (handleSendMessage (Some cid) user txt clk s)))"
proof -
  have blank: "list_all is_white_space txt \<Longrightarrow>
      handleSendMessage conversationId user txt clk s = (Inr (), s) \<and>
      handleSubmit disabled conversationId user clk' clk (txt, s) = (Inr (), txt, s)"
    by (simp add: handleSendMessage_def trim_empty_iff split: option.splits)
  have sent: "\<not> list_all is_white_space txt \<Longrightarrow> outages s = [] \<Longrightarrow> can_access s user cid \<Longrightarrow>
      user \<in> set (tbl_profiles s) \<Longrightarrow> storable_text (trim txt) \<Longrightarrow>
      handleSendMessage (Some cid) user txt clk s =
        (Inr (),
         s\<lparr>tbl_messages :=
              tbl_messages s @
              [\<lparr>msg_id = fresh_id (map msg_id (tbl_messages s)),
                conversation_id = cid,
                sender_id = user,
                content = trim txt,
                is_read = False,
                delivered_at = Some (client_now clk),
                read_at = None,
                created_at = server_now clk\<rparr>]\<rparr>)"
    by (simp add: handleSendMessage_def trim_empty_iff request_quiet insert_message_def)
  have refused: "\<not> list_all is_white_space txt \<Longrightarrow> outages s = [] \<Longrightarrow>
      \<not> storable_text (trim txt) \<or> \<not> can_access s user cid \<or>
      user \<notin> set (tbl_profiles s) \<Longrightarrow>
      handleSendMessage (Some cid) user txt clk s = (Inr (), s)"
    by (auto simp: handleSendMessage_def trim_empty_iff request_quiet insert_message_def)
  have submit: "fst (handleSubmit False (Some cid) user clk' clk (txt, s)) = Inr () \<and>
      fst (snd (handleSubmit False (Some cid) user clk' clk (txt, s))) = [] \<and>
      tbl_messages (snd (snd (handleSubmit False (Some cid) user clk' clk (txt, s))))
        = tbl_messages (snd (handleSendMessage (Some cid) user txt clk s))"
    if "\<not> list_all is_white_space txt" and q: "outages s = []"
  proof -
    have t: "trim txt \<noteq> []" using that(1) by (simp add: trim_empty_iff)
    have same: "handleSendMessage (Some cid) user (trim txt) clk s
                  = handleSendMessage (Some cid) user txt clk s"
      by (simp add: handleSendMessage_def trim_trim)
    have r: "fst (handleSendMessage (Some cid) user txt clk s) = Inr ()"
      by (simp add: handleSendMessage_def)
    show ?thesis
      using t r by (simp add: case_prod_beta typing_lookup_quiet [OF q] same)
  qed
  show ?thesis
    using blank sent refused submit by blast
qed

theorem handleSendMessage_blank_or_sent_witness:
  "handleSendMessage (Some 1) 1 [32, 9, 32] demo_clock demo_backend = (Inr (), demo_backend) \<and>
   handleSubmit False (Some 1) 1 demo_clock demo_clock ([], demo_backend) = (Inr (), [], demo_backend) \<and>
   tbl_messages (snd (handleSendMessage (Some 1) 1 [32, 72, 105, 10] demo_clock demo_backend))
     = [demo_message,
        \<lparr>msg_id = 2, conversation_id = 1, sender_id = 1, content = [72, 105], is_read = False,
         delivered_at = Some 7, read_at = None, created_at = 8\<rparr>] \<and>
   tbl_messages (snd (snd (handleSubmit False (Some 1) 1 demo_clock demo_clock
                             ([32, 72, 105, 10], demo_backend))))
     = [demo_message,
        \<lparr>msg_id = 2, conversation_id = 1, sender_id = 1, content = [72, 105], is_read = False,
         delivered_at = Some 7, read_at = None, created_at = 8\<rparr>] \<and>
   handleSendMessage (Some 1) 1 [97, 0, 98] demo_clock demo_backend = (Inr (), demo_backend) \<and>
   handleSendMessage (Some 1) 3 [72, 105] demo_clock demo_backend = (Inr (), demo_backend)"
proof -
  note T = handleSendMessage_blank_or_sent
  have blank: "list_all is_white_space [32, 9, 32]" "list_all is_white_space []"
    by (simp_all add: is_white_space_def)
  have hi: "\<not> list_all is_white_space [32, 72, 105, 10]"
    "\<not> list_all is_white_space [97, 0, 98]" "\<not> list_all is_white_space [72, 105]"
    by (simp_all add: is_white_space_def)
  have tr: "trim [32, 72, 105, 10] = [72, 105]"
    by (simp add: is_white_space_def trim_def)
  have st: "storable_text (trim [32, 72, 105, 10])"
    by (simp add: tr storable_text_def is_high_surrogate_def is_low_surrogate_def)
  have nul: "\<not> storable_text (trim [97, 0, 98])"
    by (simp add: is_white_space_def trim_def storable_text_def)
  have b: "outages demo_backend = []" "can_access demo_backend 1 1"
    "1 \<in> set (tbl_profiles demo_backend)" "\<not> can_access demo_backend 3 1"
    by (simp_all add: demo_backend_def can_access_def is_participant_def)
  have 1: "handleSendMessage (Some 1) 1 [32, 9, 32] demo_clock demo_backend = (Inr (), demo_backend)"
    using T [of "[32, 9, 32]" "Some 1" 1 demo_clock demo_backend False demo_clock 1] blank(1)
    by blast
  have 2: "handleSubmit False (Some 1) 1 demo_clock demo_clock ([], demo_backend)
             = (Inr (), [], demo_backend)"
    using T [of "[]" "Some 1" 1 demo_clock demo_backend False demo_clock 1] blank(2)
    by blast
  have "handleSendMessage (Some 1) 1 [32, 72, 105, 10] demo_clock demo_backend =
        (Inr (),
         demo_backend\<lparr>tbl_messages :=
              tbl_messages demo_backend @
              [\<lparr>msg_id = fresh_id (map msg_id (tbl_messages demo_backend)),
                conversation_id = 1,
                sender_id = 1,
                content = trim [32, 72, 105, 10],
                is_read = False,
                delivered_at = Some (client_now demo_clock),
                read_at = None,
                created_at = server_now demo_clock\<rparr>]\<rparr>)"
    using T [of "[32, 72, 105, 10]" "Some 1" 1 demo_clock demo_backend False demo_clock 1]
      hi(1) b(1,2,3) st
    by blast
  then have 3: "tbl_messages (snd (handleSendMessage (Some 1) 1 [32, 72, 105, 10] demo_clock
                                      demo_backend))
     = [demo_message,
        \<lparr>msg_id = 2, conversation_id = 1, sender_id = 1, content = [72, 105], is_read = False,
         delivered_at = Some 7, read_at = None, created_at = 8\<rparr>]"
    by (simp add: tr demo_backend_def demo_message_def fresh_id_def demo_clock_def)
  have "tbl_messages (snd (snd (handleSubmit False (Some 1) 1 demo_clock demo_clock
                             ([32, 72, 105, 10], demo_backend))))
     = tbl_messages (snd (handleSendMessage (Some 1) 1 [32, 72, 105, 10] demo_clock demo_backend))"
    using T [of "[32, 72, 105, 10]" "Some 1" 1 demo_clock demo_backend False demo_clock 1]
      hi(1) b(1)
    by blast
  then have 4: "tbl_messages (snd (snd (handleSubmit False (Some 1) 1 demo_clock demo_clock
                             ([32, 72, 105, 10], demo_backend))))
     = [demo_message,
        \<lparr>msg_id = 2, conversation_id = 1, sender_id = 1, content = [72, 105], is_read = False,
         delivered_at = Some 7, read_at = None, created_at = 8\<rparr>]"
    by (simp only: 3)
  have 5: "handleSendMessage (Some 1) 1 [97, 0, 98] demo_clock demo_backend = (Inr (), demo_backend)"
    using T [of "[97, 0, 98]" "Some 1" 1 demo_clock demo_backend False demo_clock 1]
      hi(2) b(1) nul
    by blast
  have 6: "handleSendMessage (Some 1) 3 [72, 105] demo_clock demo_backend = (Inr (), demo_backend)"
    using T [of "[72, 105]" "Some 1" 3 demo_clock demo_backend False demo_clock 1]
      hi(3) b(1,4)
    by blast
  show ?thesis
    using 1 2 3 4 5 6 by (simp only: simp_thms)
qed

section \<open>Resolving a conversation\<close>

lemma insert_conversation_outages [simp]:
  "outages (snd (insert_conversation uid a b s)) = outages s"
  by (simp add: insert_conversation_def Let_def)

lemma other_sessions_outages [simp]: "outages (other_sessions concurrent s) = outages s"
  unfolding other_sessions_def
  by (induction concurrent arbitrary: s) (simp_all add: case_prod_beta)

lemma select_conversation_between_error:
  "fst (select_conversation_between uid a b s) = Inl e \<Longrightarrow> e = MultipleRows"
  by (auto simp: select_conversation_between_def maybeSingle_def split: list.splits)

lemma insert_conversation_error:
  "fst (insert_conversation uid a b s) = Inl e \<Longrightarrow>
   e = RlsViolation \<or> e = CheckViolation \<or> e = UniqueViolation \<or> e = ForeignKeyViolation"
  by (auto simp: insert_conversation_def Let_def split: if_splits)

lemma insert_conversation_outages_upd:
  "insert_conversation uid a b (s\<lparr>outages := fs\<rparr>)
     = (fst (insert_conversation uid a b s), (snd (insert_conversation uid a b s))\<lparr>outages := fs\<rparr>)"
  by (simp add: insert_conversation_def Let_def)

lemma other_sessions_outages_upd:
  "other_sessions concurrent (s\<lparr>outages := fs\<rparr>) = (other_sessions concurrent s)\<lparr>outages := fs\<rparr>"
  unfolding other_sessions_def
  by (induction concurrent arbitrary: s) (simp_all add: case_prod_beta insert_conversation_outages_upd)

lemma request_next: "outages s = False # fs \<Longrightarrow> request q s = q (s\<lparr>outages := fs\<rparr>)"
  by (simp add: request_def)

text \<open>What \<^verbatim>\<open>getOrCreateConversation\<close> throws is an error of one of its two requests.\<close>

lemma getOrCreateConversation_error:
  assumes "fst (getOrCreateConversation user selectedUser concurrent s) = Inl e"
  shows "e = TransportError \<or> e = MultipleRows \<or> e = RlsViolation \<or> e = CheckViolation \<or>
         e = UniqueViolation \<or> e = ForeignKeyViolation"
proof -
  have a: "fst (request (select_conversation_between uid a b) s') = Inl e' \<Longrightarrow>
           e' = TransportError \<or> e' = MultipleRows" for uid a b s' e'
    using select_conversation_between_error
    by (fastforce simp: request_def split: list.splits if_splits)
  have b: "fst (request (insert_conversation uid a b) s') = Inl e' \<Longrightarrow>
           e' = TransportError \<or> e' = RlsViolation \<or> e' = CheckViolation \<or>
           e' = UniqueViolation \<or> e' = ForeignKeyViolation"
    for uid a b s' e'
    using insert_conversation_error
    by (fastforce simp: request_def split: list.splits if_splits)
  show ?thesis
    using assms a [of user user selectedUser s]
      b [of user user selectedUser
           "other_sessions concurrent
              (snd (request (select_conversation_between user user selectedUser) s))"]
    by (auto simp: getOrCreateConversation_def split: prod.splits sum.splits option.splits)
qed

lemma lookup_none:
  assumes "\<not> list_ex (between a b) (tbl_conversations s)"
  shows "select_conversation_between uid a b s = (Inr None, s)"
proof -
  have "filter (\<lambda>c. is_participant uid c \<and> between a b c) (tbl_conversations s) = []"
    using assms by (auto simp: filter_empty_conv list_ex_iff)
  then show ?thesis by (simp add: select_conversation_between_def maybeSingle_def)
qed

text \<open>
  C1, as the specification states it: when the insert fails on the unique index, the
  resolver looks the conversation up again and returns the id the other party created.
  The source does not: user 1 resolves towards user 2 on empty tables, user 2 inserts
  the conversation (id 1) between the lookup and the insert of user 1, and the call of
  user 1 throws the unique violation instead of returning 1.
\<close>

theorem resolver_conflict_counterexample:
  "getOrCreateConversation 1 2 [(2, 1)] empty_backend =
     (Inl UniqueViolation,
      empty_backend\<lparr>tbl_conversations := [\<lparr>conv_id = 1, participant_1 = 2, participant_2 = 1\<rparr>]\<rparr>)"
  by (simp add: getOrCreateConversation_def request_def select_conversation_between_def
      maybeSingle_def empty_backend_def other_sessions_def insert_conversation_def
      fresh_id_def same_pair_def)

text \<open>
  C1, amended: when the lookup finds no conversation and another session creates the
  pair's conversation before the insert, the resolver issues exactly two requests, its
  lookup and its one insert: it throws the store's unique violation as it came and
  leaves the tables as the other session left them, and a third request, which a
  second lookup would be, is not issued. No call of the resolver fails with
  \<open>ConflictRetryExhausted\<close>.
\<close>

theorem resolver_conflict_propagates:
  "(user \<noteq> selectedUser \<and>
    \<not> list_ex (between user selectedUser) (tbl_conversations s) \<and>
    list_ex (same_pair user selectedUser) (tbl_conversations (other_sessions concurrent s)) \<longrightarrow>
      (outages s = [] \<longrightarrow>
         getOrCreateConversation user selectedUser concurrent s
           = (Inl UniqueViolation, other_sessions concurrent s)) \<and>
      (outages s = False # False # fs \<longrightarrow>
         getOrCreateConversation user selectedUser concurrent s
           = (Inl UniqueViolation, (other_sessions concurrent s)\<lparr>outages := fs\<rparr>))) \<and>
   fst (getOrCreateConversation user' selectedUser' concurrent' s') \<noteq> Inl ConflictRetryExhausted"
proof -
  have never: "fst (getOrCreateConversation user' selectedUser' concurrent' s')
          \<noteq> Inl ConflictRetryExhausted"
    using getOrCreateConversation_error [of user' selectedUser' concurrent' s'] by auto
  have quiet: "getOrCreateConversation user selectedUser concurrent s
           = (Inl UniqueViolation, other_sessions concurrent s)"
    if "user \<noteq> selectedUser" "\<not> list_ex (between user selectedUser) (tbl_conversations s)"
      "list_ex (same_pair user selectedUser) (tbl_conversations (other_sessions concurrent s))"
      "outages s = []"
    using that
    by (simp add: getOrCreateConversation_def request_quiet lookup_none insert_conversation_def)
  have counted: "getOrCreateConversation user selectedUser concurrent s
           = (Inl UniqueViolation, (other_sessions concurrent s)\<lparr>outages := fs\<rparr>)"
    if h: "user \<noteq> selectedUser" "\<not> list_ex (between user selectedUser) (tbl_conversations s)"
      "list_ex (same_pair user selectedUser) (tbl_conversations (other_sessions concurrent s))"
      and q: "outages s = False # False # fs"
  proof -
    let ?s1 = "s\<lparr>outages := False # fs\<rparr>"
    have 1: "request (select_conversation_between user user selectedUser) s = (Inr None, ?s1)"
      using h(2) by (simp add: request_next [OF q] lookup_none)
    have o: "other_sessions concurrent ?s1 = (other_sessions concurrent s)\<lparr>outages := False # fs\<rparr>"
      by (rule other_sessions_outages_upd)
    have 2: "request (insert_conversation user user selectedUser) (other_sessions concurrent ?s1)
               = (Inl UniqueViolation, (other_sessions concurrent s)\<lparr>outages := fs\<rparr>)"
      unfolding o using h(1,3)
      by (simp add: request_next [of _ fs] insert_conversation_def)
    show ?thesis
      by (simp add: getOrCreateConversation_def 1 2)
  qed
  show ?thesis
    using never quiet counted by blast
qed

theorem resolver_conflict_propagates_witness:
  "getOrCreateConversation 1 2 [(2, 1)] empty_backend =
     (Inl UniqueViolation,
      empty_backend\<lparr>tbl_conversations := [\<lparr>conv_id = 1, participant_1 = 2, participant_2 = 1\<rparr>]\<rparr>) \<and>
   getOrCreateConversation 1 2 [(2, 1)] (empty_backend\<lparr>outages := [False, False, True]\<rparr>) =
     (Inl UniqueViolation,
      empty_backend\<lparr>tbl_conversations := [\<lparr>conv_id = 1, participant_1 = 2, participant_2 = 1\<rparr>],
                     outages := [True]\<rparr>)"
proof -
  have o: "other_sessions [(2, 1)] empty_backend =
             empty_backend\<lparr>tbl_conversations := [\<lparr>conv_id = 1, participant_1 = 2, participant_2 = 1\<rparr>]\<rparr>"
    and o': "other_sessions [(2, 1)] (empty_backend\<lparr>outages := [False, False, True]\<rparr>) =
             empty_backend\<lparr>tbl_conversations := [\<lparr>conv_id = 1, participant_1 = 2, participant_2 = 1\<rparr>],
                            outages := [False, False, True]\<rparr>"
    by (simp_all add: other_sessions_def insert_conversation_def empty_backend_def fresh_id_def
        same_pair_def)
  have h: "(1::nat) \<noteq> 2" "\<not> list_ex (between 1 2) (tbl_conversations empty_backend)"
    "list_ex (same_pair 1 2) (tbl_conversations (other_sessions [(2, 1)] empty_backend))"
    "outages empty_backend = []"
    "\<not> list_ex (between 1 2) (tbl_conversations (empty_backend\<lparr>outages := [False, False, True]\<rparr>))"
    "list_ex (same_pair 1 2)
       (tbl_conversations (other_sessions [(2, 1)] (empty_backend\<lparr>outages := [False, False, True]\<rparr>)))"
    "outages (empty_backend\<lparr>outages := [False, False, True]\<rparr>) = False # False # [True]"
    unfolding o o' by (simp_all add: empty_backend_def same_pair_def)
  have 1: "getOrCreateConversation 1 2 [(2, 1)] empty_backend
             = (Inl UniqueViolation, other_sessions [(2, 1)] empty_backend)"
    using resolver_conflict_propagates [of 1 2 empty_backend "[(2, 1)]"] h(1,2,3,4) by blast
  have 2: "getOrCreateConversation 1 2 [(2, 1)] (empty_backend\<lparr>outages := [False, False, True]\<rparr>)
             = (Inl UniqueViolation,
                (other_sessions [(2, 1)] (empty_backend\<lparr>outages := [False, False, True]\<rparr>))
                  \<lparr>outages := [True]\<rparr>)"
    using resolver_conflict_propagates
            [of 1 2 "empty_backend\<lparr>outages := [False, False, True]\<rparr>" "[(2, 1)]" "[True]"]
      h(1,5,6,7)
    by blast
  show ?thesis
    unfolding 1 2 o o' by (simp add: empty_backend_def)
qed

lemma between_same_pair: "between a b c \<longleftrightarrow> same_pair a b c"
  by (auto simp: between_def same_pair_def min_def max_def split: if_splits)

lemma same_pair_key: "same_pair a b c \<longleftrightarrow> pair_key c = (min a b, max a b)"
  by (simp add: same_pair_def pair_key_def)

lemma between_pair_key: "between a b = (\<lambda>c. pair_key c = (min a b, max a b))"
  by (rule ext) (simp add: between_same_pair same_pair_key)

lemma between_commute: "between a b c \<longleftrightarrow> between b a c"
  by (auto simp: between_def)

lemma between_participant: "between a b c \<Longrightarrow> is_participant a c \<and> is_participant b c"
  by (auto simp: between_def is_participant_def)

lemma filter_key_le_1: "distinct (map f xs) \<Longrightarrow> length (filter (\<lambda>x. f x = k) xs) \<le> Suc 0"
  by (induction xs) (auto simp: filter_empty_conv image_iff)

lemma lookup_filter:
  "filter (\<lambda>c. is_participant a c \<and> between a b c) cs = filter (between a b) cs"
  "filter (\<lambda>c. is_participant b c \<and> between a b c) cs = filter (between a b) cs"
  by (auto intro!: filter_cong dest: between_participant)

lemma select_conversation_between_found:
  assumes "filter (between a b) (tbl_conversations s) = [c]" and "uid = a \<or> uid = b"
  shows "select_conversation_between uid a b s = (Inr (Some (conv_id c)), s)"
  using assms by (auto simp: select_conversation_between_def lookup_filter maybeSingle_def)

lemma resolve_found:
  assumes "outages s = []" and "filter (between a b) (tbl_conversations s) = [c]"
  shows "getOrCreateConversation a b [] s = (Inr (conv_id c), s)"
    and "getOrCreateConversation b a [] s = (Inr (conv_id c), s)"
proof -
  have "filter (between b a) (tbl_conversations s) = [c]"
    using assms(2) between_commute [of a b] by (simp cong: filter_cong)
  then show "getOrCreateConversation b a [] s = (Inr (conv_id c), s)"
    using assms(1) by (simp add: getOrCreateConversation_def request_quiet
        select_conversation_between_found)
  show "getOrCreateConversation a b [] s = (Inr (conv_id c), s)"
    using assms by (simp add: getOrCreateConversation_def request_quiet
        select_conversation_between_found)
qed

text \<open>A resolver that finds the conversation issues one request, the lookup.\<close>

lemma resolve_found_counted:
  assumes "filter (between a b) (tbl_conversations s) = [c]"
  shows "getOrCreateConversation a b [] (s\<lparr>outages := False # fs\<rparr>)
           = (Inr (conv_id c), s\<lparr>outages := fs\<rparr>)"
    and "getOrCreateConversation b a [] (s\<lparr>outages := False # fs\<rparr>)
           = (Inr (conv_id c), s\<lparr>outages := fs\<rparr>)"
proof -
  have f: "filter (between a b) (tbl_conversations (s\<lparr>outages := fs\<rparr>)) = [c]"
    using assms by simp
  have g: "filter (between b a) (tbl_conversations (s\<lparr>outages := fs\<rparr>)) = [c]"
    using assms between_commute [of a b] by (simp cong: filter_cong)
  have q: "outages (s\<lparr>outages := False # fs\<rparr>) = False # fs"
    by simp
  show "getOrCreateConversation a b [] (s\<lparr>outages := False # fs\<rparr>)
           = (Inr (conv_id c), s\<lparr>outages := fs\<rparr>)"
    by (simp add: getOrCreateConversation_def request_next [OF q]
        select_conversation_between_found [OF f])
  show "getOrCreateConversation b a [] (s\<lparr>outages := False # fs\<rparr>)
           = (Inr (conv_id c), s\<lparr>outages := fs\<rparr>)"
    by (simp add: getOrCreateConversation_def request_next [OF q]
        select_conversation_between_found [OF g])
qed

lemma resolve_created:
  assumes "outages s = []" and "a \<noteq> b" and "filter (between a b) (tbl_conversations s) = []"
    and "a \<in> set (tbl_profiles s)" and "b \<in> set (tbl_profiles s)"
  shows "getOrCreateConversation a b [] s =
           (Inr (fresh_id (map conv_id (tbl_conversations s))),
            s\<lparr>tbl_conversations := tbl_conversations s @
                 [\<lparr>conv_id = fresh_id (map conv_id (tbl_conversations s)),
                   participant_1 = a, participant_2 = b\<rparr>]\<rparr>)"
proof -
  have none: "\<not> list_ex (between a b) (tbl_conversations s)"
    using assms(3) by (auto simp: filter_empty_conv list_ex_iff)
  then have "\<not> list_ex (same_pair a b) (tbl_conversations s)"
    by (simp add: list_ex_iff between_same_pair)
  then show ?thesis
    using assms(1,2,4,5) none
    by (simp add: getOrCreateConversation_def request_quiet lookup_none other_sessions_def
        insert_conversation_def Let_def)
qed

text \<open>
  C2: on a working connection and tables that respect the unique index, resolving for
  two distinct registered users succeeds with the id of the one conversation of the
  pair: the stored one when there is one, and the tables stay as they are, or else a
  new row with the caller as \<open>participant_1\<close>, appended to the table. Resolving
  again, from either side, returns that same id and leaves the tables as they are,
  with one request, the lookup.
\<close>

theorem resolver_symmetric_idempotent:
  assumes "outages s = []" and "a \<noteq> b" and "unique_pairs s"
    and "a \<in> set (tbl_profiles s)" and "b \<in> set (tbl_profiles s)"
  shows "\<exists>row s1.
           getOrCreateConversation a b [] s = (Inr (conv_id row), s1) \<and>
           filter (between a b) (tbl_conversations s1) = [row] \<and>
           (if list_ex (between a b) (tbl_conversations s) then s1 = s
            else row = \<lparr>conv_id = fresh_id (map conv_id (tbl_conversations s)),
                         participant_1 = a, participant_2 = b\<rparr> \<and>
                 s1 = s\<lparr>tbl_conversations := tbl_conversations s @ [row]\<rparr>) \<and>
           getOrCreateConversation b a [] s1 = (Inr (conv_id row), s1) \<and>
           getOrCreateConversation a b [] s1 = (Inr (conv_id row), s1) \<and>
           (\<forall>fs. getOrCreateConversation b a [] (s1\<lparr>outages := False # fs\<rparr>)
                   = (Inr (conv_id row), s1\<lparr>outages := fs\<rparr>)) \<and>
           (\<forall>fs. getOrCreateConversation a b [] (s1\<lparr>outages := False # fs\<rparr>)
                   = (Inr (conv_id row), s1\<lparr>outages := fs\<rparr>))"
proof -
  have "length (filter (between a b) (tbl_conversations s)) \<le> Suc 0"
    using assms(3) filter_key_le_1 [of pair_key "tbl_conversations s" "(min a b, max a b)"]
    by (simp add: unique_pairs_def between_pair_key)
  then consider "filter (between a b) (tbl_conversations s) = []"
    | c where "filter (between a b) (tbl_conversations s) = [c]"
    by (cases "filter (between a b) (tbl_conversations s)") (auto simp: length_Suc_conv)
  then show ?thesis
  proof cases
    case 1
    let ?n = "fresh_id (map conv_id (tbl_conversations s))"
    let ?row = "\<lparr>conv_id = ?n, participant_1 = a, participant_2 = b\<rparr>"
    let ?s1 = "s\<lparr>tbl_conversations := tbl_conversations s @ [?row]\<rparr>"
    have none: "\<not> list_ex (between a b) (tbl_conversations s)"
      using 1 by (auto simp: filter_empty_conv list_ex_iff)
    have first: "getOrCreateConversation a b [] s = (Inr (conv_id ?row), ?s1)"
      using resolve_created [OF assms(1,2) 1 assms(4,5)] by simp
    have q: "outages ?s1 = []" using assms(1) by simp
    have f: "filter (between a b) (tbl_conversations ?s1) = [?row]"
      using 1 by (simp add: between_def)
    show ?thesis
      apply (rule exI [of _ ?row], rule exI [of _ ?s1])
      using first f none resolve_found [OF q f] resolve_found_counted [OF f]
      by (simp only: if_False simp_thms)
  next
    case 2
    have some: "list_ex (between a b) (tbl_conversations s)"
    proof -
      have "c \<in> set (filter (between a b) (tbl_conversations s))"
        unfolding 2 by simp
      then show ?thesis by (auto simp: list_ex_iff)
    qed
    show ?thesis
      apply (rule exI [of _ c], rule exI [of _ s])
      using 2 some resolve_found [OF assms(1) 2] resolve_found_counted [OF 2]
      by (simp only: if_True simp_thms)
  qed
qed

theorem resolver_symmetric_idempotent_witness:
  "getOrCreateConversation 1 2 [] empty_backend
     = (Inr 1, empty_backend\<lparr>tbl_conversations := [\<lparr>conv_id = 1, participant_1 = 1, participant_2 = 2\<rparr>]\<rparr>) \<and>
   getOrCreateConversation 2 1 [] (snd (getOrCreateConversation 1 2 [] empty_backend))
     = getOrCreateConversation 1 2 [] empty_backend \<and>
   getOrCreateConversation 1 2 [] (snd (getOrCreateConversation 1 2 [] empty_backend))
     = getOrCreateConversation 1 2 [] empty_backend \<and>
   getOrCreateConversation 3 1 [] demo_inbox = (Inr 2, demo_inbox) \<and>
   getOrCreateConversation 1 3 [] demo_inbox = (Inr 2, demo_inbox)"
proof -
  have e: "outages empty_backend = []" "(1::nat) \<noteq> 2" "unique_pairs empty_backend"
    "1 \<in> set (tbl_profiles empty_backend)" "2 \<in> set (tbl_profiles empty_backend)"
    by (simp_all add: empty_backend_def unique_pairs_def)
  have d: "outages demo_inbox = []" "(3::nat) \<noteq> 1" "unique_pairs demo_inbox"
    "3 \<in> set (tbl_profiles demo_inbox)" "1 \<in> set (tbl_profiles demo_inbox)"
    by (simp_all add: demo_inbox_def unique_pairs_def pair_key_def)
  have n: "\<not> list_ex (between 1 2) (tbl_conversations empty_backend)"
    by (simp add: empty_backend_def)
  have y: "filter (between 3 1) (tbl_conversations demo_inbox)
             = [\<lparr>conv_id = 2, participant_1 = 3, participant_2 = 1\<rparr>]"
    by (simp add: demo_inbox_def between_def)
  have f: "fresh_id (map conv_id (tbl_conversations empty_backend)) = 1"
    by (simp add: empty_backend_def fresh_id_def)
  obtain row s1 where
    1: "getOrCreateConversation 1 2 [] empty_backend = (Inr (conv_id row), s1)"
    and 2: "if list_ex (between 1 2) (tbl_conversations empty_backend) then s1 = empty_backend
            else row = \<lparr>conv_id = fresh_id (map conv_id (tbl_conversations empty_backend)),
                         participant_1 = 1, participant_2 = 2\<rparr> \<and>
                 s1 = empty_backend\<lparr>tbl_conversations := tbl_conversations empty_backend @ [row]\<rparr>"
    and 3: "getOrCreateConversation 2 1 [] s1 = (Inr (conv_id row), s1)"
    and 4: "getOrCreateConversation 1 2 [] s1 = (Inr (conv_id row), s1)"
    using resolver_symmetric_idempotent [OF e] by blast
  have row: "row = \<lparr>conv_id = 1, participant_1 = 1, participant_2 = 2\<rparr>"
    and s1: "s1 = empty_backend\<lparr>tbl_conversations := [row]\<rparr>"
    using 2 n f by (simp_all add: empty_backend_def)
  obtain row' s2 where
    5: "getOrCreateConversation 3 1 [] demo_inbox = (Inr (conv_id row'), s2)"
    and 6: "filter (between 3 1) (tbl_conversations s2) = [row']"
    and 7: "if list_ex (between 3 1) (tbl_conversations demo_inbox) then s2 = demo_inbox
            else row' = \<lparr>conv_id = fresh_id (map conv_id (tbl_conversations demo_inbox)),
                          participant_1 = 3, participant_2 = 1\<rparr> \<and>
                 s2 = demo_inbox\<lparr>tbl_conversations := tbl_conversations demo_inbox @ [row']\<rparr>"
    and 8: "getOrCreateConversation 1 3 [] s2 = (Inr (conv_id row'), s2)"
    using resolver_symmetric_idempotent [OF d] by blast
  have "list_ex (between 3 1) (tbl_conversations demo_inbox)"
    by (simp add: demo_inbox_def between_def)
  then have s2: "s2 = demo_inbox"
    using 7 by simp
  have row': "row' = \<lparr>conv_id = 2, participant_1 = 3, participant_2 = 1\<rparr>"
    using 6 y unfolding s2 by simp
  show ?thesis
    using 1 3 4 5 8 unfolding s2 by (simp add: row row' s1)
qed

section \<open>The unread counters\<close>

lemma can_access_member:
  "c \<in> set (tbl_conversations s) \<Longrightarrow> is_participant u c \<Longrightarrow> can_access s u (conv_id c)"
  by (auto simp: can_access_def list_ex_iff)

lemma count_unread_participant:
  assumes "c \<in> set (tbl_conversations s)" and "is_participant u c"
  shows "count_unread u (conv_id c) u s =
           (Inr (length (filter (\<lambda>m. conversation_id m = conv_id c \<and> \<not> is_read m \<and> sender_id m \<noteq> u)
                           (tbl_messages s))), s)"
proof -
  have "filter (\<lambda>m. conversation_id m = conv_id c \<and> \<not> is_read m \<and> sender_id m \<noteq> u \<and>
                     can_access s u (conversation_id m)) (tbl_messages s)
        = filter (\<lambda>m. conversation_id m = conv_id c \<and> \<not> is_read m \<and> sender_id m \<noteq> u)
            (tbl_messages s)"
    using can_access_member [OF assms] by (auto intro!: filter_cong)
  then show ?thesis by (simp add: count_unread_def)
qed

lemma count_each_quiet:
  assumes "outages s = []"
    and "\<forall>c\<in>set cs. c \<in> set (tbl_conversations s) \<and> is_participant u c"
  shows "count_each u cs counts s =
           (foldl (\<lambda>m c. m(otherUserId u c \<mapsto>
                      length (filter (\<lambda>m. conversation_id m = conv_id c \<and> \<not> is_read m \<and>
                                          sender_id m \<noteq> u) (tbl_messages s))))
              counts cs, s)"
  using assms(2)
proof (induction cs arbitrary: counts)
  case Nil
  then show ?case by simp
next
  case (Cons c cs)
  let ?n = "length (filter (\<lambda>m. conversation_id m = conv_id c \<and> \<not> is_read m \<and>
                                 sender_id m \<noteq> u) (tbl_messages s))"
  have c: "c \<in> set (tbl_conversations s)" "is_participant u c"
    using Cons.prems by simp_all
  have rest: "\<forall>c\<in>set cs. c \<in> set (tbl_conversations s) \<and> is_participant u c"
    using Cons.prems by simp
  have "count_each u (c # cs) counts s = count_each u cs (counts(otherUserId u c \<mapsto> ?n)) s"
    using assms(1) by (simp add: request_quiet count_unread_participant [OF c])
  also note Cons.IH [OF rest]
  finally show ?case by (simp only: foldl_Cons)
qed

lemma foldl_upd_other:
  "k \<notin> f ` set cs \<Longrightarrow> foldl (\<lambda>m c. m(f c \<mapsto> g c)) m0 cs k = m0 k"
  by (induction cs arbitrary: m0) auto

lemma foldl_upd_dom: "dom (foldl (\<lambda>m c. m(f c \<mapsto> g c)) m0 cs) = dom m0 \<union> f ` set cs"
  by (induction cs arbitrary: m0) auto

lemma foldl_upd_value:
  "distinct (map f cs) \<Longrightarrow> c \<in> set cs \<Longrightarrow> foldl (\<lambda>m c. m(f c \<mapsto> g c)) m0 cs (f c) = Some (g c)"
  by (induction cs arbitrary: m0) (auto simp: foldl_upd_other)

lemma pair_key_participant:
  "is_participant u c \<Longrightarrow> pair_key c = (min u (otherUserId u c), max u (otherUserId u c))"
  by (auto simp: is_participant_def pair_key_def otherUserId_def min_def max_def)

lemma distinct_map_inner: "distinct (map (\<lambda>x. g (f x)) xs) \<Longrightarrow> distinct (map f xs)"
  by (induction xs) auto

lemma distinct_peers:
  assumes "distinct (map pair_key cs)"
  shows "distinct (map (otherUserId u) (filter (is_participant u) cs))"
proof -
  have "distinct (map pair_key (filter (is_participant u) cs))"
    using assms by (rule distinct_map_filter)
  moreover have "map pair_key (filter (is_participant u) cs)
      = map ((\<lambda>v. (min u v, max u v)) \<circ> otherUserId u) (filter (is_participant u) cs)"
    by (simp add: pair_key_participant)
  ultimately have "distinct (map (\<lambda>c. (\<lambda>v. (min u v, max u v)) (otherUserId u c))
                              (filter (is_participant u) cs))"
    by (simp add: comp_def)
  then show ?thesis by (rule distinct_map_inner)
qed

lemma fetchUnreadCounts_quiet:
  assumes "outages s = []"
  shows "fetchUnreadCounts (Some u) (old, s) =
           (foldl (\<lambda>m c. m(otherUserId u c \<mapsto>
                      length (filter (\<lambda>m. conversation_id m = conv_id c \<and> \<not> is_read m \<and>
                                          sender_id m \<noteq> u) (tbl_messages s))))
              Map.empty (filter (is_participant u) (tbl_conversations s)), s)"
  using assms
  by (simp add: request_quiet select_conversations_of_def count_each_quiet)

text \<open>
  C3: on a working connection and tables that respect the unique index of
  \<^verbatim>\<open>conversations\<close>, \<^verbatim>\<open>fetchUnreadCounts\<close> leaves the backend as it is and sets
  a mapping whose keys are exactly the other participants of the user's
  conversations; the value of each is the number of rows of that conversation with
  \<^verbatim>\<open>is_read\<close> false and another sender, also when that number is 0.
\<close>

theorem fetchUnreadCounts_exact:
  assumes "outages s = []" and "unique_pairs s"
  shows "snd (fetchUnreadCounts (Some u) (old, s)) = s \<and>
         dom (fst (fetchUnreadCounts (Some u) (old, s)))
           = otherUserId u ` set (filter (is_participant u) (tbl_conversations s)) \<and>
         (\<forall>c\<in>set (tbl_conversations s). is_participant u c \<longrightarrow>
            fst (fetchUnreadCounts (Some u) (old, s)) (otherUserId u c)
              = Some (length (filter (\<lambda>m. conversation_id m = conv_id c \<and> \<not> is_read m \<and>
                                          sender_id m \<noteq> u) (tbl_messages s))))"
proof -
  let ?cs = "filter (is_participant u) (tbl_conversations s)"
  have d: "distinct (map (otherUserId u) ?cs)"
    using assms(2) unfolding unique_pairs_def by (rule distinct_peers)
  note r = fetchUnreadCounts_quiet [OF assms(1), of u old]
  have 1: "snd (fetchUnreadCounts (Some u) (old, s)) = s"
    unfolding r by simp
  have 2: "dom (fst (fetchUnreadCounts (Some u) (old, s))) = otherUserId u ` set ?cs"
    unfolding r fst_conv by (simp only: foldl_upd_dom dom_empty Un_empty_left)
  have 3: "fst (fetchUnreadCounts (Some u) (old, s)) (otherUserId u c)
              = Some (length (filter (\<lambda>m. conversation_id m = conv_id c \<and> \<not> is_read m \<and>
                                          sender_id m \<noteq> u) (tbl_messages s)))"
    if "c \<in> set ?cs" for c
    unfolding r fst_conv using d that by (rule foldl_upd_value)
  show ?thesis
    using 1 2 3 by simp
qed

theorem fetchUnreadCounts_exact_witness:
  "dom (fst (fetchUnreadCounts (Some 1) (Map.empty, demo_inbox))) = {2, 3} \<and>
   fst (fetchUnreadCounts (Some 1) (Map.empty, demo_inbox)) 2 = Some 2 \<and>
   fst (fetchUnreadCounts (Some 1) (Map.empty, demo_inbox)) 3 = Some 0"
  using fetchUnreadCounts_exact [of demo_inbox 1 Map.empty]
  by (auto simp: demo_inbox_def unique_pairs_def pair_key_def is_participant_def otherUserId_def
      request_def select_conversations_of_def count_unread_def can_access_def)

section \<open>The typing indicator\<close>

lemma can_access_typing_upd [simp]:
  "can_access (s\<lparr>tbl_typing_indicators := ts\<rparr>) = can_access s"
  by (simp add: can_access_def fun_eq_iff)

lemma can_access_exists:
  "can_access s u cid \<Longrightarrow> list_ex (\<lambda>c. conv_id c = cid) (tbl_conversations s)"
  by (auto simp: can_access_def list_ex_iff)

lemma filter_map_stable:
  "(\<And>x. P (f x) = P x) \<Longrightarrow> filter P (map f xs) = map f (filter P xs)"
  by (induction xs) auto

lemma unique_typing_pair:
  assumes "unique_typing s"
  shows "length (typing_rows cid user s) \<le> Suc 0"
  using filter_key_le_1 [of "\<lambda>r. (ti_conversation_id r, user_id r)" "tbl_typing_indicators s" "(cid, user)"]
    assms by (simp add: unique_typing_def typing_rows_def)

subsection \<open>The two requests of a call\<close>

lemma typing_lookup_calm:
  assumes "outages s = []" and "can_access s user cid"
    and "length (typing_rows cid user s) \<le> Suc 0"
  shows "typing_lookup user cid s =
           (case typing_rows cid user s of [] \<Rightarrow> None | r # rest \<Rightarrow> Some (ti_id r), s)"
proof -
  have eq: "filter (\<lambda>t. ti_conversation_id t = cid \<and> user_id t = user \<and>
                     can_access s user (ti_conversation_id t)) (tbl_typing_indicators s)
        = typing_rows cid user s"
    unfolding typing_rows_def using assms(2) by (auto intro!: filter_cong)
  show ?thesis
  proof (cases "typing_rows cid user s")
    case Nil
    then show ?thesis
      using assms(1) eq by (simp add: typing_lookup_def request_quiet select_typing_def maybeSingle_def)
  next
    case (Cons r rest)
    then have "rest = []" using assms(3) by simp
    then show ?thesis
      using assms(1) eq Cons
      by (simp add: typing_lookup_def request_quiet select_typing_def maybeSingle_def)
  qed
qed

lemma typing_write_insert:
  assumes "outages s = []" and "can_access s user cid" and "user \<in> set (tbl_profiles s)"
    and "typing_rows cid user s = []"
  shows "typing_write user cid typing clk None s =
           s\<lparr>tbl_typing_indicators :=
                tbl_typing_indicators s @
                [\<lparr>ti_id = fresh_id (map ti_id (tbl_typing_indicators s)),
                  ti_conversation_id = cid, user_id = user, is_typing = typing,
                  updated_at = server_now clk\<rparr>]\<rparr>"
proof -
  have none: "\<not> list_ex (\<lambda>r. ti_conversation_id r = cid \<and> user_id r = user) (tbl_typing_indicators s)"
    using assms(4) by (auto simp: typing_rows_def filter_empty_conv list_ex_iff)
  show ?thesis
    using assms(1,3) none can_access_exists [OF assms(2)]
    by (simp add: typing_write_def request_quiet insert_typing_def)
qed

lemma typing_write_conflict:
  assumes "outages s = []" and "typing_rows cid user s \<noteq> []"
  shows "typing_write user cid typing clk None s = s"
proof -
  have some: "list_ex (\<lambda>r. ti_conversation_id r = cid \<and> user_id r = user) (tbl_typing_indicators s)"
    using assms(2) by (auto simp: typing_rows_def filter_empty_conv list_ex_iff)
  show ?thesis
    using assms(1) some by (simp add: typing_write_def request_quiet insert_typing_def)
qed

lemma typing_write_update:
  assumes "outages s = []"
  shows "typing_write user cid typing clk (Some i) s =
           s\<lparr>tbl_typing_indicators :=
                map (\<lambda>x. if ti_id x = i \<and> user_id x = user
                         then x\<lparr>is_typing := typing, updated_at := client_now clk\<rparr> else x)
                  (tbl_typing_indicators s)\<rparr>"
  using assms by (simp add: typing_write_def request_quiet update_typing_def)

lemma typing_rows_update:
  "typing_rows cid user
     (s\<lparr>tbl_typing_indicators :=
          map (\<lambda>x. if ti_id x = i \<and> user_id x = u
                   then x\<lparr>is_typing := typing, updated_at := t\<rparr> else x)
            (tbl_typing_indicators s)\<rparr>)
   = map (\<lambda>x. if ti_id x = i \<and> user_id x = u
               then x\<lparr>is_typing := typing, updated_at := t\<rparr> else x)
       (typing_rows cid user s)"
proof -
  have "filter (\<lambda>r. ti_conversation_id r = cid \<and> user_id r = user)
          (map (\<lambda>x. if ti_id x = i \<and> user_id x = u
                    then x\<lparr>is_typing := typing, updated_at := t\<rparr> else x)
             (tbl_typing_indicators s))
        = map (\<lambda>x. if ti_id x = i \<and> user_id x = u
                    then x\<lparr>is_typing := typing, updated_at := t\<rparr> else x)
            (filter (\<lambda>r. ti_conversation_id r = cid \<and> user_id r = user)
               (tbl_typing_indicators s))"
    by (rule filter_map_stable) simp
  then show ?thesis by (simp add: typing_rows_def)
qed

lemma updateTypingIndicator_insert:
  assumes "outages s = []" and "can_access s user cid" and "user \<in> set (tbl_profiles s)"
    and "typing_rows cid user s = []"
  shows "updateTypingIndicator (Some cid) user typing clk s =
           s\<lparr>tbl_typing_indicators :=
                tbl_typing_indicators s @
                [\<lparr>ti_id = fresh_id (map ti_id (tbl_typing_indicators s)),
                  ti_conversation_id = cid, user_id = user, is_typing = typing,
                  updated_at = server_now clk\<rparr>]\<rparr>"
proof -
  have "typing_lookup user cid s = (None, s)"
    using typing_lookup_calm [OF assms(1,2), of ] assms(4) by simp
  then show ?thesis
    using typing_write_insert [OF assms, of typing clk] by (simp add: updateTypingIndicator_def)
qed

lemma updateTypingIndicator_update:
  assumes "outages s = []" and "can_access s user cid"
    and "typing_rows cid user s = [r]"
  shows "updateTypingIndicator (Some cid) user typing clk s =
           s\<lparr>tbl_typing_indicators :=
                map (\<lambda>x. if ti_id x = ti_id r \<and> user_id x = user
                         then x\<lparr>is_typing := typing, updated_at := client_now clk\<rparr> else x)
                  (tbl_typing_indicators s)\<rparr>"
proof -
  have "typing_lookup user cid s = (Some (ti_id r), s)"
    using typing_lookup_calm [OF assms(1,2)] assms(3) by simp
  then show ?thesis
    using typing_write_update [OF assms(1), of user cid typing clk "ti_id r"]
    by (simp add: updateTypingIndicator_def)
qed

text \<open>A call that runs from its start to its end leaves one row for the pair, with the
  flag of the call.\<close>

lemma updateTypingIndicator_step:
  assumes "outages s = []" and "can_access s user cid" and "user \<in> set (tbl_profiles s)"
    and "length (typing_rows cid user s) \<le> Suc 0"
  shows "map is_typing (typing_rows cid user (updateTypingIndicator (Some cid) user typing clk s))
           = [typing]"
    and "outages (updateTypingIndicator (Some cid) user typing clk s) = []"
    and "can_access (updateTypingIndicator (Some cid) user typing clk s) user cid"
    and "user \<in> set (tbl_profiles (updateTypingIndicator (Some cid) user typing clk s))"
proof -
  let ?s1 = "updateTypingIndicator (Some cid) user typing clk s"
  consider "typing_rows cid user s = []" | r where "typing_rows cid user s = [r]"
    using assms(4) by (cases "typing_rows cid user s") (auto simp: length_Suc_conv)
  then have "map is_typing (typing_rows cid user ?s1) = [typing] \<and> outages ?s1 = [] \<and>
             can_access ?s1 user cid \<and> user \<in> set (tbl_profiles ?s1)"
  proof cases
    case 1
    have "typing_rows cid user ?s1 =
            [\<lparr>ti_id = fresh_id (map ti_id (tbl_typing_indicators s)),
              ti_conversation_id = cid, user_id = user, is_typing = typing,
              updated_at = server_now clk\<rparr>]"
      unfolding updateTypingIndicator_insert [OF assms(1,2,3) 1]
      using 1 by (simp add: typing_rows_def)
    then show ?thesis
      using assms(1,2,3) by (simp add: updateTypingIndicator_insert [OF assms(1,2,3) 1])
  next
    case 2
    have "r \<in> set (typing_rows cid user s)" using 2 by simp
    then have r: "user_id r = user"
      by (simp add: typing_rows_def)
    have "typing_rows cid user ?s1 = [r\<lparr>is_typing := typing, updated_at := client_now clk\<rparr>]"
      unfolding updateTypingIndicator_update [OF assms(1,2) 2] typing_rows_update
      using 2 r by simp
    then show ?thesis
      using assms(1,2,3) by (simp add: updateTypingIndicator_update [OF assms(1,2) 2])
  qed
  then show "map is_typing (typing_rows cid user ?s1) = [typing]"
    and "outages ?s1 = []" and "can_access ?s1 user cid" and "user \<in> set (tbl_profiles ?s1)"
    by simp_all
qed

lemma awaited_calls_last:
  assumes "outages s = []" and "can_access s user cid" and "user \<in> set (tbl_profiles s)"
    and "length (typing_rows cid user s) \<le> Suc 0" and "calls \<noteq> []"
  shows "map is_typing
           (typing_rows cid user
              (foldl (\<lambda>s' (flag, clk). updateTypingIndicator (Some cid) user flag clk s') s calls))
         = [fst (last calls)]"
  using assms
proof (induction calls arbitrary: s)
  case Nil
  then show ?case by simp
next
  case (Cons c cs)
  obtain typing clk where c: "c = (typing, clk)" by (cases c)
  let ?s1 = "updateTypingIndicator (Some cid) user typing clk s"
  note step = updateTypingIndicator_step [OF Cons.prems(1,2,3,4), of typing clk]
  show ?case
  proof (cases "cs = []")
    case True
    then show ?thesis using step(1) by (simp add: c)
  next
    case False
    have le: "length (typing_rows cid user ?s1) \<le> Suc 0"
      using arg_cong [OF step(1), of length] by simp
    from Cons.IH [OF step(2,3,4) le False] False show ?thesis
      by (simp add: c)
  qed
qed

subsection \<open>Calls that overlap\<close>

text \<open>Calls that each end before the next one starts are the calls awaited in turn.\<close>

lemma one_by_one_awaited:
  "typing_run cid user (one_by_one calls) ([], s) =
     ([], foldl (\<lambda>s' (flag, clk). updateTypingIndicator (Some cid) user flag clk s') s calls)"
proof (induction calls arbitrary: s)
  case Nil
  show ?case by (simp add: typing_run_def one_by_one_def)
next
  case (Cons c cs)
  obtain flag clk where c: "c = (flag, clk)" by (cases c)
  have "typing_run cid user (one_by_one (c # cs)) ([], s) =
          typing_run cid user (one_by_one cs)
            ([], updateTypingIndicator (Some cid) user flag clk s)"
    by (simp add: typing_run_def one_by_one_def c updateTypingIndicator_def split: prod.splits)
  then show ?case
    by (simp add: Cons.IH c)
qed

lemma typing_write_calm:
  assumes "outages s = []" and "can_access s user cid" and "user \<in> set (tbl_profiles s)"
    and "length (typing_rows cid user s) \<le> Suc 0"
    and "existing \<noteq> None \<longrightarrow> typing_rows cid user s \<noteq> []"
  shows "outages (typing_write user cid flag clk existing s) = []"
    and "can_access (typing_write user cid flag clk existing s) user cid"
    and "user \<in> set (tbl_profiles (typing_write user cid flag clk existing s))"
    and "length (typing_rows cid user (typing_write user cid flag clk existing s)) = Suc 0"
proof -
  let ?s1 = "typing_write user cid flag clk existing s"
  have "outages ?s1 = [] \<and> can_access ?s1 user cid \<and> user \<in> set (tbl_profiles ?s1) \<and>
        length (typing_rows cid user ?s1) = Suc 0"
  proof (cases existing)
    case None
    show ?thesis
    proof (cases "typing_rows cid user s = []")
      case True
      show ?thesis
        unfolding None typing_write_insert [OF assms(1,2,3) True]
        using assms(1,2,3) True by (simp add: typing_rows_def)
    next
      case False
      then have "length (typing_rows cid user s) = Suc 0"
        using assms(4) by (cases "typing_rows cid user s") simp_all
      then show ?thesis
        unfolding None typing_write_conflict [OF assms(1) False]
        using assms(1,2,3) by simp
    qed
  next
    case (Some i)
    then have "typing_rows cid user s \<noteq> []"
      using assms(5) by simp
    then have "length (typing_rows cid user s) = Suc 0"
      using assms(4) by (cases "typing_rows cid user s") simp_all
    then show ?thesis
      unfolding Some typing_write_update [OF assms(1)] typing_rows_update
      using assms(1,2,3) by simp
  qed
  then show "outages ?s1 = []" and "can_access ?s1 user cid"
    and "user \<in> set (tbl_profiles ?s1)" and "length (typing_rows cid user ?s1) = Suc 0"
    by simp_all
qed

lemma typing_step_calm:
  assumes "typing_calm cid user (w, s)" and "typing_step cid user ev (w, s) = (w1, s1)"
  shows "typing_calm cid user (w1, s1)"
    and "typing_rows cid user s \<noteq> [] \<Longrightarrow> typing_rows cid user s1 \<noteq> []"
    and "length w1 < length w + (if is_call ev then 1 else 0) \<Longrightarrow> typing_rows cid user s1 \<noteq> []"
proof -
  have q: "outages s = []" and a: "can_access s user cid" and p: "user \<in> set (tbl_profiles s)"
    and le: "length (typing_rows cid user s) \<le> Suc 0"
    and wait: "typing_rows cid user s = [] \<Longrightarrow> list_all (\<lambda>(flag, clk, existing). existing = None) w"
    using assms(1) by (simp_all add: typing_calm_def)
  have "typing_calm cid user (w1, s1) \<and>
        (typing_rows cid user s \<noteq> [] \<longrightarrow> typing_rows cid user s1 \<noteq> []) \<and>
        (length w1 < length w + (if is_call ev then 1 else 0) \<longrightarrow> typing_rows cid user s1 \<noteq> [])"
  proof (cases ev)
    case (Call flag clk)
    have l: "typing_lookup user cid s =
               (case typing_rows cid user s of [] \<Rightarrow> None | r # rest \<Rightarrow> Some (ti_id r), s)"
      using q a le by (rule typing_lookup_calm)
    have s1: "s1 = s"
      and w1: "w1 = w @ [(flag, clk, case typing_rows cid user s of [] \<Rightarrow> None
                                      | r # rest \<Rightarrow> Some (ti_id r))]"
      using assms(2) unfolding Call by (auto simp: l)
    have "typing_rows cid user s = [] \<Longrightarrow> list_all (\<lambda>(flag, clk, existing). existing = None) w1"
      using wait unfolding w1 by simp
    then show ?thesis
      using q a p le unfolding s1 by (simp add: typing_calm_def w1 Call)
  next
    case (Resume k)
    show ?thesis
    proof (cases "k < length w")
      case False
      then have "w1 = w" and "s1 = s"
        using assms(2) unfolding Resume by simp_all
      then show ?thesis
        using assms(1) by (simp add: Resume)
    next
      case True
      obtain flag clk existing where wk: "w ! k = (flag, clk, existing)"
        by (cases "w ! k")
      have s1: "s1 = typing_write user cid flag clk existing s"
        and w1: "w1 = take k w @ drop (Suc k) w"
        using assms(2) True unfolding Resume by (simp_all add: wk)
      have "(flag, clk, existing) \<in> set w"
        using True wk by (metis nth_mem)
      then have ex: "existing \<noteq> None \<longrightarrow> typing_rows cid user s \<noteq> []"
        using wait by (auto simp: list_all_iff)
      note w = typing_write_calm [OF q a p le ex, of flag clk]
      have "typing_rows cid user s1 \<noteq> []"
        using w(4) unfolding s1 by auto
      then show ?thesis
        using w unfolding s1 by (simp add: typing_calm_def)
    qed
  qed
  then show "typing_calm cid user (w1, s1)"
    and "typing_rows cid user s \<noteq> [] \<Longrightarrow> typing_rows cid user s1 \<noteq> []"
    and "length w1 < length w + (if is_call ev then 1 else 0) \<Longrightarrow> typing_rows cid user s1 \<noteq> []"
    by simp_all
qed

lemma typing_run_calm:
  assumes "typing_calm cid user (w, s)" and "typing_run cid user events (w, s) = (w', s')"
  shows "typing_calm cid user (w', s')"
    and "typing_rows cid user s \<noteq> [] \<Longrightarrow> typing_rows cid user s' \<noteq> []"
    and "length w' < length w + length (filter is_call events) \<Longrightarrow> typing_rows cid user s' \<noteq> []"
proof -
  have "typing_calm cid user (w', s') \<and>
        (typing_rows cid user s \<noteq> [] \<longrightarrow> typing_rows cid user s' \<noteq> []) \<and>
        (length w' < length w + length (filter is_call events) \<longrightarrow> typing_rows cid user s' \<noteq> [])"
    using assms
  proof (induction events arbitrary: w s)
    case Nil
    then show ?case by (simp add: typing_run_def)
  next
    case (Cons ev evs)
    obtain w1 s1 where st: "typing_step cid user ev (w, s) = (w1, s1)"
      by (cases "typing_step cid user ev (w, s)")
    have run: "typing_run cid user evs (w1, s1) = (w', s')"
      using Cons.prems(2) by (simp add: typing_run_def st)
    note step = typing_step_calm [OF Cons.prems(1) st]
    note ih = Cons.IH [OF step(1) run]
    have len: "length w1 \<le> length w + (if is_call ev then 1 else 0)"
      using st by (cases ev) (auto split: if_splits prod.splits)
    show ?case
    proof (intro conjI impI)
      show "typing_calm cid user (w', s')" using ih by simp
      show "typing_rows cid user s' \<noteq> []" if "typing_rows cid user s \<noteq> []"
        using ih step(2) that by simp
      show "typing_rows cid user s' \<noteq> []"
        if h: "length w' < length w + length (filter is_call (ev # evs))"
      proof (cases "length w1 < length w + (if is_call ev then 1 else 0)")
        case True
        then show ?thesis using step(3) ih by simp
      next
        case False
        then have "length w1 = length w + (if is_call ev then 1 else 0)"
          using len by simp
        then have "length w' < length w1 + length (filter is_call evs)"
          using h by (simp split: if_splits)
        then show ?thesis using ih by simp
      qed
    qed
  qed
  then show "typing_calm cid user (w', s')"
    and "typing_rows cid user s \<noteq> [] \<Longrightarrow> typing_rows cid user s' \<noteq> []"
    and "length w' < length w + length (filter is_call events) \<Longrightarrow> typing_rows cid user s' \<noteq> []"
    by simp_all
qed

text \<open>
  C7 as the specification words it, refuted: \<^verbatim>\<open>handleChange\<close> and its timer do not
  await \<^verbatim>\<open>updateTypingIndicator\<close>. With no row for the pair, a call with \<open>True\<close> and
  a call with \<open>False\<close> both look the row up before either writes; both then insert, the
  second insert fails on \<^verbatim>\<open>UNIQUE(conversation_id, user_id)\<close>, and the row keeps
  \<^verbatim>\<open>is_typing\<close> of the first call, not of the last one.
\<close>

theorem setTyping_overlap_counterexample:
  "fst (typing_run 1 1 [Call True demo_clock, Call False demo_clock, Resume 0, Resume 0]
          ([], demo_backend)) = [] \<and>
   map (\<lambda>r. (ti_conversation_id r, user_id r, is_typing r))
     (tbl_typing_indicators
        (snd (typing_run 1 1 [Call True demo_clock, Call False demo_clock, Resume 0, Resume 0]
                ([], demo_backend))))
     = [(1, 1, True)]"
  by (simp add: typing_run_def typing_lookup_def typing_write_def demo_backend_def request_def
      select_typing_def maybeSingle_def insert_typing_def update_typing_def fresh_id_def
      can_access_def is_participant_def)

text \<open>
  C7, amended: with a conversation of the registered user open, a working connection
  and a table that respects \<^verbatim>\<open>UNIQUE(conversation_id, user_id)\<close>, a call of
  \<^verbatim>\<open>updateTypingIndicator\<close> that no other request interrupts updates the pair's
  row in place, by its id, when there is one, and appends a new row when there is
  none. Calls that each end before the next one starts are these calls in turn, and
  after one or more of them the pair has exactly one row, with \<^verbatim>\<open>is_typing\<close> of the
  last call. When calls overlap in any way, the pair has exactly one row once at least
  one call was made and every call has finished.
\<close>

theorem setTyping_upsert:
  assumes "outages s = []" and "can_access s user cid" and "user \<in> set (tbl_profiles s)"
    and "unique_typing s"
  shows "updateTypingIndicator (Some cid) user typing clk s =
           (case typing_rows cid user s of
              [] \<Rightarrow>
                s\<lparr>tbl_typing_indicators :=
                     tbl_typing_indicators s @
                     [\<lparr>ti_id = fresh_id (map ti_id (tbl_typing_indicators s)),
                       ti_conversation_id = cid, user_id = user, is_typing = typing,
                       updated_at = server_now clk\<rparr>]\<rparr>
            | r # rest \<Rightarrow>
                s\<lparr>tbl_typing_indicators :=
                     map (\<lambda>x. if ti_id x = ti_id r \<and> user_id x = user
                              then x\<lparr>is_typing := typing, updated_at := client_now clk\<rparr> else x)
                       (tbl_typing_indicators s)\<rparr>) \<and>
         typing_run cid user (one_by_one calls) ([], s) =
           ([], foldl (\<lambda>s' (flag, clk). updateTypingIndicator (Some cid) user flag clk s') s calls) \<and>
         (calls \<noteq> [] \<longrightarrow>
            map is_typing (typing_rows cid user (snd (typing_run cid user (one_by_one calls) ([], s))))
              = [fst (last calls)]) \<and>
         (list_ex is_call events \<and> fst (typing_run cid user events ([], s)) = [] \<longrightarrow>
            length (typing_rows cid user (snd (typing_run cid user events ([], s)))) = 1)"
proof -
  note le = unique_typing_pair [OF assms(4), of cid user]
  have 1: "updateTypingIndicator (Some cid) user typing clk s =
           (case typing_rows cid user s of
              [] \<Rightarrow>
                s\<lparr>tbl_typing_indicators :=
                     tbl_typing_indicators s @
                     [\<lparr>ti_id = fresh_id (map ti_id (tbl_typing_indicators s)),
                       ti_conversation_id = cid, user_id = user, is_typing = typing,
                       updated_at = server_now clk\<rparr>]\<rparr>
            | r # rest \<Rightarrow>
                s\<lparr>tbl_typing_indicators :=
                     map (\<lambda>x. if ti_id x = ti_id r \<and> user_id x = user
                              then x\<lparr>is_typing := typing, updated_at := client_now clk\<rparr> else x)
                       (tbl_typing_indicators s)\<rparr>)"
  proof (cases "typing_rows cid user s")
    case Nil
    then show ?thesis
      using updateTypingIndicator_insert [OF assms(1,2,3) Nil, of typing clk] by simp
  next
    case (Cons r rest)
    then have rest: "rest = []" using le by simp
    have "typing_rows cid user s = [r]" using Cons rest by simp
    from updateTypingIndicator_update [OF assms(1,2) this, of typing clk] Cons show ?thesis
      by simp
  qed
  have 2: "typing_run cid user (one_by_one calls) ([], s) =
           ([], foldl (\<lambda>s' (flag, clk). updateTypingIndicator (Some cid) user flag clk s') s calls)"
    by (rule one_by_one_awaited)
  have 3: "map is_typing (typing_rows cid user (snd (typing_run cid user (one_by_one calls) ([], s))))
              = [fst (last calls)]" if "calls \<noteq> []"
    unfolding 2 snd_conv using assms(1,2,3) le that by (rule awaited_calls_last)
  have 4: "length (typing_rows cid user (snd (typing_run cid user events ([], s)))) = 1"
    if c: "list_ex is_call events" and e: "fst (typing_run cid user events ([], s)) = []"
  proof -
    obtain w' s' where run: "typing_run cid user events ([], s) = (w', s')"
      by (cases "typing_run cid user events ([], s)")
    have calm: "typing_calm cid user ([], s)"
      using assms(1,2,3) le by (simp add: typing_calm_def)
    have w': "w' = []" using e run by simp
    have "filter is_call events \<noteq> []"
      using c by (auto simp: list_ex_iff filter_empty_conv)
    then have "length w' < length ([] :: waiting) + length (filter is_call events)"
      unfolding w' by simp
    then have ne: "typing_rows cid user s' \<noteq> []"
      by (rule typing_run_calm(3) [OF calm run])
    have "length (typing_rows cid user s') \<le> 1"
      using typing_run_calm(1) [OF calm run] by (simp add: typing_calm_def)
    then have "length (typing_rows cid user s') = 1"
      using ne by (cases "typing_rows cid user s'") simp_all
    then show ?thesis by (simp add: run)
  qed
  show ?thesis
    using 1 2 3 4 by blast
qed

theorem setTyping_upsert_witness:
  "map (\<lambda>r. (ti_conversation_id r, user_id r, is_typing r))
     (tbl_typing_indicators
        (snd (typing_run 1 1
                (one_by_one [(True, demo_clock), (False, demo_clock), (False, demo_clock)])
                ([], demo_backend))))
     = [(1, 1, False)] \<and>
   updateTypingIndicator (Some 1) 1 True demo_clock demo_backend =
     demo_backend\<lparr>tbl_typing_indicators :=
       [\<lparr>ti_id = 1, ti_conversation_id = 1, user_id = 1, is_typing = True, updated_at = 8\<rparr>]\<rparr> \<and>
   updateTypingIndicator (Some 1) 1 False demo_clock
     (updateTypingIndicator (Some 1) 1 True demo_clock demo_backend) =
     demo_backend\<lparr>tbl_typing_indicators :=
       [\<lparr>ti_id = 1, ti_conversation_id = 1, user_id = 1, is_typing = False, updated_at = 7\<rparr>]\<rparr> \<and>
   length (typing_rows 1 1
     (snd (typing_run 1 1 [Call True demo_clock, Call False demo_clock, Resume 1, Resume 0]
             ([], demo_backend)))) = 1"
proof -
  let ?calls = "[(True, demo_clock), (False, demo_clock), (False, demo_clock)]"
  let ?events = "[Call True demo_clock, Call False demo_clock, Resume 1, Resume 0]"
  let ?s1 = "demo_backend\<lparr>tbl_typing_indicators :=
       [\<lparr>ti_id = 1, ti_conversation_id = 1, user_id = 1, is_typing = True, updated_at = 8\<rparr>]\<rparr>"
  have h: "outages demo_backend = []" "can_access demo_backend 1 1"
    "1 \<in> set (tbl_profiles demo_backend)" "unique_typing demo_backend"
    by (simp_all add: demo_backend_def can_access_def is_participant_def unique_typing_def)
  have h1: "outages ?s1 = []" "can_access ?s1 1 1" "1 \<in> set (tbl_profiles ?s1)" "unique_typing ?s1"
    by (simp_all add: demo_backend_def can_access_def is_participant_def unique_typing_def)
  have rows: "typing_rows 1 1 demo_backend = []"
    "typing_rows 1 1 ?s1 =
       [\<lparr>ti_id = 1, ti_conversation_id = 1, user_id = 1, is_typing = True, updated_at = 8\<rparr>]"
    by (simp_all add: typing_rows_def demo_backend_def)
  have fresh: "fresh_id (map ti_id (tbl_typing_indicators demo_backend)) = 1"
    by (simp add: demo_backend_def fresh_id_def)
  have finished: "list_ex is_call ?events \<and> fst (typing_run 1 1 ?events ([], demo_backend)) = []"
    by (simp add: typing_run_def typing_lookup_def request_def select_typing_def maybeSingle_def
        demo_backend_def)
  have ne: "?calls \<noteq> []"
    by simp
  note T = setTyping_upsert [OF h, of True demo_clock ?calls ?events]
  note T1 = setTyping_upsert [OF h1, of False demo_clock ?calls ?events]
  have "updateTypingIndicator (Some 1) 1 True demo_clock demo_backend =
          (case typing_rows 1 1 demo_backend of
             [] \<Rightarrow>
               demo_backend\<lparr>tbl_typing_indicators :=
                 tbl_typing_indicators demo_backend @
                 [\<lparr>ti_id = fresh_id (map ti_id (tbl_typing_indicators demo_backend)),
                   ti_conversation_id = 1, user_id = 1, is_typing = True,
                   updated_at = server_now demo_clock\<rparr>]\<rparr>
           | r # rest \<Rightarrow>
               demo_backend\<lparr>tbl_typing_indicators :=
                 map (\<lambda>x. if ti_id x = ti_id r \<and> user_id x = 1
                          then x\<lparr>is_typing := True, updated_at := client_now demo_clock\<rparr> else x)
                   (tbl_typing_indicators demo_backend)\<rparr>)"
    using T by blast
  then have a: "updateTypingIndicator (Some 1) 1 True demo_clock demo_backend = ?s1"
    unfolding rows fresh by (simp add: demo_backend_def demo_clock_def)
  have "updateTypingIndicator (Some 1) 1 False demo_clock ?s1 =
          (case typing_rows 1 1 ?s1 of
             [] \<Rightarrow>
               ?s1\<lparr>tbl_typing_indicators :=
                 tbl_typing_indicators ?s1 @
                 [\<lparr>ti_id = fresh_id (map ti_id (tbl_typing_indicators ?s1)),
                   ti_conversation_id = 1, user_id = 1, is_typing = False,
                   updated_at = server_now demo_clock\<rparr>]\<rparr>
           | r # rest \<Rightarrow>
               ?s1\<lparr>tbl_typing_indicators :=
                 map (\<lambda>x. if ti_id x = ti_id r \<and> user_id x = 1
                          then x\<lparr>is_typing := False, updated_at := client_now demo_clock\<rparr> else x)
                   (tbl_typing_indicators ?s1)\<rparr>)"
    using T1 by blast
  then have b: "updateTypingIndicator (Some 1) 1 False demo_clock ?s1 =
     demo_backend\<lparr>tbl_typing_indicators :=
       [\<lparr>ti_id = 1, ti_conversation_id = 1, user_id = 1, is_typing = False, updated_at = 7\<rparr>]\<rparr>"
    unfolding rows by (simp add: demo_backend_def demo_clock_def)
  have c: "map is_typing (typing_rows 1 1 (snd (typing_run 1 1 (one_by_one ?calls) ([], demo_backend))))
             = [fst (last ?calls)]"
    using T ne by blast
  have d: "length (typing_rows 1 1 (snd (typing_run 1 1 ?events ([], demo_backend)))) = 1"
    using T finished by blast
  have e: "tbl_typing_indicators (snd (typing_run 1 1 (one_by_one ?calls) ([], demo_backend)))
             = typing_rows 1 1 (snd (typing_run 1 1 (one_by_one ?calls) ([], demo_backend)))"
    by (simp add: one_by_one_def typing_run_def typing_lookup_def typing_write_def typing_rows_def
        demo_backend_def request_def select_typing_def maybeSingle_def insert_typing_def
        update_typing_def fresh_id_def can_access_def is_participant_def)
  have f: "list_all (\<lambda>r. ti_conversation_id r = 1 \<and> user_id r = 1)
             (typing_rows 1 1 (snd (typing_run 1 1 (one_by_one ?calls) ([], demo_backend))))"
    by (simp add: typing_rows_def list_all_iff)
  have g: "map (\<lambda>r. (ti_conversation_id r, user_id r, is_typing r))
             (typing_rows 1 1 (snd (typing_run 1 1 (one_by_one ?calls) ([], demo_backend))))
           = map (\<lambda>t. (1, 1, t))
               (map is_typing
                  (typing_rows 1 1 (snd (typing_run 1 1 (one_by_one ?calls) ([], demo_backend)))))"
    using f by (simp add: list_all_iff)
  have first: "map (\<lambda>r. (ti_conversation_id r, user_id r, is_typing r))
     (tbl_typing_indicators (snd (typing_run 1 1 (one_by_one ?calls) ([], demo_backend))))
     = [(1, 1, False)]"
    unfolding e g c by simp
  show ?thesis
    using first b d unfolding a by (simp only: simp_thms)
qed

section \<open>Loading a conversation\<close>

lemma mark_each_quiet:
  "outages s = [] \<Longrightarrow>
   mark_each user ms date k s =
     s\<lparr>tbl_messages := map (marked (can_access s user) ms date k) (tbl_messages s)\<rparr>"
proof (induction ms arbitrary: k s)
  case Nil
  then show ?case by simp
next
  case (Cons m ms)
  let ?s1 = "markMessageAsRead user (msg_id m) (date k) s"
  have q: "outages ?s1 = []" using Cons.prems by (rule markMessageAsRead_outages)
  have acc: "can_access ?s1 = can_access s"
    using Cons.prems by (simp add: markMessageAsRead_quiet)
  have "mark_each user (m # ms) date k s = mark_each user ms date (Suc k) ?s1"
    by simp
  also have "\<dots> = ?s1\<lparr>tbl_messages := map (marked (can_access s user) ms date (Suc k))
                                         (tbl_messages ?s1)\<rparr>"
    using Cons.IH [OF q] by (simp only: acc)
  also have "\<dots> = s\<lparr>tbl_messages := map (marked (can_access s user) (m # ms) date k)
                                      (tbl_messages s)\<rparr>"
    using Cons.prems by (simp add: markMessageAsRead_quiet comp_def)
  finally show ?case .
qed

lemma marked_fields [simp]:
  "msg_id (marked acc ms date k r) = msg_id r"
  "conversation_id (marked acc ms date k r) = conversation_id r"
  "sender_id (marked acc ms date k r) = sender_id r"
  by (induction ms arbitrary: k r) simp_all

lemma marked_other: "msg_id r \<notin> msg_id ` set ms \<Longrightarrow> marked acc ms date k r = r"
  by (induction ms arbitrary: k) auto

lemma marked_is_read: "is_read r \<Longrightarrow> is_read (marked acc ms date k r)"
  by (induction ms arbitrary: k r) simp_all

lemma marked_hit:
  "msg_id r \<in> msg_id ` set ms \<Longrightarrow> acc (conversation_id r) \<Longrightarrow>
   \<exists>j<length ms. marked acc ms date k r = r\<lparr>is_read := True, read_at := Some (date (k + j))\<rparr>"
proof (induction ms arbitrary: k r)
  case Nil
  then show ?case by simp
next
  case (Cons m ms)
  let ?r1 = "if msg_id r = msg_id m \<and> acc (conversation_id r)
             then r\<lparr>is_read := True, read_at := Some (date k)\<rparr> else r"
  show ?case
  proof (cases "msg_id r \<in> msg_id ` set ms")
    case True
    then have "msg_id ?r1 \<in> msg_id ` set ms" and "acc (conversation_id ?r1)"
      using Cons.prems(2) by auto
    from Cons.IH [OF this, of "Suc k"] obtain j where j: "j < length ms"
      and "marked acc ms date (Suc k) ?r1 = ?r1\<lparr>is_read := True, read_at := Some (date (Suc k + j))\<rparr>"
      by blast
    then have "marked acc (m # ms) date k r = r\<lparr>is_read := True, read_at := Some (date (k + Suc j))\<rparr>"
      by simp
    then show ?thesis using j by (intro exI [of _ "Suc j"]) simp
  next
    case False
    then have "msg_id r = msg_id m" using Cons.prems(1) by simp
    then have "marked acc (m # ms) date k r = r\<lparr>is_read := True, read_at := Some (date (k + 0))\<rparr>"
      using False Cons.prems(2) by (simp add: marked_other)
    then show ?thesis by (intro exI [of _ 0]) simp
  qed
qed

lemma select_messages_quiet:
  "select_messages user convId s =
     (Inr (sort_key created_at
             (filter (\<lambda>m. conversation_id m = convId \<and> can_access s user convId) (tbl_messages s))), s)"
proof -
  have "filter (\<lambda>m. conversation_id m = convId \<and> can_access s user (conversation_id m)) (tbl_messages s)
        = filter (\<lambda>m. conversation_id m = convId \<and> can_access s user convId) (tbl_messages s)"
    by (auto intro!: filter_cong)
  then show ?thesis by (simp add: select_messages_def)
qed

lemma loadMessages_quiet:
  assumes "outages s = []"
  shows "loadMessages user convId date (prev, s) =
           (sort_key created_at
              (filter (\<lambda>m. conversation_id m = convId \<and> can_access s user convId) (tbl_messages s)),
            s\<lparr>tbl_messages :=
                 map (marked (can_access s user)
                        (filter (\<lambda>msg. sender_id msg \<noteq> user \<and> \<not> is_read msg)
                           (sort_key created_at
                              (filter (\<lambda>m. conversation_id m = convId \<and> can_access s user convId)
                                 (tbl_messages s))))
                        date 0)
                   (tbl_messages s)\<rparr>)"
  using assms by (simp add: request_quiet select_messages_quiet mark_each_quiet)

lemma distinct_ids_eq:
  "distinct (map f xs) \<Longrightarrow> x \<in> set xs \<Longrightarrow> y \<in> set xs \<Longrightarrow> f x = f y \<Longrightarrow> x = y"
  by (meson distinct_map inj_onD)


lemma fetchUnreadCounts_value:
  assumes "outages s = []" and "unique_pairs s"
    and "c \<in> set (tbl_conversations s)" and "is_participant u c"
  shows "fst (fetchUnreadCounts (Some u) (old, s)) (otherUserId u c)
           = Some (length (filter (\<lambda>m. conversation_id m = conv_id c \<and> \<not> is_read m \<and>
                                       sender_id m \<noteq> u) (tbl_messages s)))"
proof -
  let ?cs = "filter (is_participant u) (tbl_conversations s)"
  have d: "distinct (map (otherUserId u) ?cs)"
    using assms(2) unfolding unique_pairs_def by (rule distinct_peers)
  have c: "c \<in> set ?cs" using assms(3,4) by simp
  show ?thesis
    unfolding fetchUnreadCounts_quiet [OF assms(1), of u old] fst_conv
    using d c by (rule foldl_upd_value)
qed

lemma loadMessages_rows:
  assumes "unique_message_ids s" and "i < length (tbl_messages s)"
    and history_def: "history = sort_key created_at
             (filter (\<lambda>m. conversation_id m = convId \<and> can_access s user convId) (tbl_messages s))"
    and unread_def: "unread = filter (\<lambda>msg. sender_id msg \<noteq> user \<and> \<not> is_read msg) history"
  shows "if tbl_messages s ! i \<in> set history \<and> sender_id (tbl_messages s ! i) \<noteq> user \<and>
            \<not> is_read (tbl_messages s ! i)
         then \<exists>j<length unread.
                marked (can_access s user) unread date 0 (tbl_messages s ! i)
                  = (tbl_messages s ! i)\<lparr>is_read := True, read_at := Some (date j)\<rparr>
         else marked (can_access s user) unread date 0 (tbl_messages s ! i) = tbl_messages s ! i"
proof -
  let ?r = "tbl_messages s ! i"
  have r: "?r \<in> set (tbl_messages s)" using assms(2) by simp
  have sub: "set unread \<subseteq> set (tbl_messages s)"
    by (auto simp: unread_def history_def)
  have mem: "?r \<in> set unread \<longleftrightarrow> ?r \<in> set history \<and> sender_id ?r \<noteq> user \<and> \<not> is_read ?r"
    by (auto simp: unread_def)
  show ?thesis
  proof (cases "?r \<in> set unread")
    case True
    then have "msg_id ?r \<in> msg_id ` set unread" by (rule imageI)
    moreover have "can_access s user (conversation_id ?r)"
      using True by (auto simp: unread_def history_def)
    ultimately have "\<exists>j<length unread. marked (can_access s user) unread date 0 ?r
                       = ?r\<lparr>is_read := True, read_at := Some (date (0 + j))\<rparr>"
      by (rule marked_hit)
    then have "\<exists>j<length unread. marked (can_access s user) unread date 0 ?r
                       = ?r\<lparr>is_read := True, read_at := Some (date j)\<rparr>"
      by simp
    moreover have "?r \<in> set history \<and> sender_id ?r \<noteq> user \<and> \<not> is_read ?r"
      using True mem by blast
    ultimately show ?thesis by (simp only: if_True simp_thms)
  next
    case False
    have "msg_id ?r \<notin> msg_id ` set unread"
    proof
      assume "msg_id ?r \<in> msg_id ` set unread"
      then obtain u where u: "u \<in> set unread" "msg_id ?r = msg_id u" by auto
      then have "u \<in> set (tbl_messages s)" using sub by auto
      with assms(1) r u(2) have "?r = u"
        unfolding unique_message_ids_def by (metis distinct_ids_eq)
      with u(1) False show False by simp
    qed
    then have "marked (can_access s user) unread date 0 ?r = ?r" by (rule marked_other)
    moreover have "\<not> (?r \<in> set history \<and> sender_id ?r \<noteq> user \<and> \<not> is_read ?r)"
      using False mem by blast
    ultimately show ?thesis by (simp only: if_False simp_thms)
  qed
qed

lemma loadMessages_none_unread:
  shows "filter (\<lambda>m. conversation_id m = convId \<and> \<not> is_read m \<and> sender_id m \<noteq> user \<and>
                      can_access s user (conversation_id m))
           (map (marked (can_access s user)
                   (filter (\<lambda>msg. sender_id msg \<noteq> user \<and> \<not> is_read msg)
                      (sort_key created_at
                         (filter (\<lambda>m. conversation_id m = convId \<and> can_access s user convId)
                            (tbl_messages s))))
                   date 0)
              (tbl_messages s)) = []"
proof -
  let ?unread = "filter (\<lambda>msg. sender_id msg \<noteq> user \<and> \<not> is_read msg)
                   (sort_key created_at
                      (filter (\<lambda>m. conversation_id m = convId \<and> can_access s user convId)
                         (tbl_messages s)))"
  have "is_read (marked (can_access s user) ?unread date 0 r)"
    if r: "r \<in> set (tbl_messages s)" and c: "conversation_id r = convId"
      and a: "can_access s user convId" and u: "sender_id r \<noteq> user" for r
  proof (cases "is_read r")
    case True
    then show ?thesis by (rule marked_is_read)
  next
    case False
    then have "r \<in> set ?unread" using r c a u by simp
    then have "msg_id r \<in> msg_id ` set ?unread" by (rule imageI)
    moreover have "can_access s user (conversation_id r)" using c a by simp
    ultimately obtain j where
      "marked (can_access s user) ?unread date 0 r = r\<lparr>is_read := True, read_at := Some (date (0 + j))\<rparr>"
      using marked_hit by blast
    then show ?thesis by simp
  qed
  then show ?thesis
    by (auto simp: filter_empty_conv)
qed

text \<open>
  C4: on a working connection and a table that respects the primary key of
  \<^verbatim>\<open>messages\<close>, \<^verbatim>\<open>loadMessages\<close> sets the local list to the conversation's rows
  in the order of \<^verbatim>\<open>created_at\<close> and then marks, one call after the other, each
  loaded row of another sender with \<^verbatim>\<open>is_read\<close> false: the stored row gets
  \<^verbatim>\<open>is_read\<close> true and the clock reading of its call as \<^verbatim>\<open>read_at\<close>. Every
  other stored row, the user's own and the rows already read among them, stays as it
  was. Afterwards the count query of that conversation gives 0, and so does
  \<^verbatim>\<open>fetchUnreadCounts\<close> for the peer.
\<close>

theorem loadMessages_marks_unread:
  assumes "outages s = []" and "unique_message_ids s"
    and "loadMessages user convId date (prev, s) = (history, s')"
  shows "history = sort_key created_at
           (filter (\<lambda>m. conversation_id m = convId \<and> can_access s user convId) (tbl_messages s)) \<and>
         length (tbl_messages s') = length (tbl_messages s) \<and>
         (\<forall>i<length (tbl_messages s).
            if tbl_messages s ! i \<in> set history \<and> sender_id (tbl_messages s ! i) \<noteq> user \<and>
               \<not> is_read (tbl_messages s ! i)
            then \<exists>j<length (filter (\<lambda>msg. sender_id msg \<noteq> user \<and> \<not> is_read msg) history).
                   tbl_messages s' ! i
                     = (tbl_messages s ! i)\<lparr>is_read := True, read_at := Some (date j)\<rparr>
            else tbl_messages s' ! i = tbl_messages s ! i) \<and>
         count_unread user convId user s' = (Inr 0, s') \<and>
         (\<forall>conv\<in>set (tbl_conversations s).
            unique_pairs s \<and> conv_id conv = convId \<and> is_participant user conv \<longrightarrow>
            fst (fetchUnreadCounts (Some user) (old, s')) (otherUserId user conv) = Some 0)"
proof -
  let ?history = "sort_key created_at
           (filter (\<lambda>m. conversation_id m = convId \<and> can_access s user convId) (tbl_messages s))"
  let ?unread = "filter (\<lambda>msg. sender_id msg \<noteq> user \<and> \<not> is_read msg) ?history"
  from assms(3) loadMessages_quiet [OF assms(1), of user convId date prev]
  have h: "history = ?history"
    and s': "s' = s\<lparr>tbl_messages := map (marked (can_access s user) ?unread date 0) (tbl_messages s)\<rparr>"
    by simp_all
  have len: "length (tbl_messages s') = length (tbl_messages s)"
    by (simp add: s')
  have rows: "\<forall>i<length (tbl_messages s).
            if tbl_messages s ! i \<in> set history \<and> sender_id (tbl_messages s ! i) \<noteq> user \<and>
               \<not> is_read (tbl_messages s ! i)
            then \<exists>j<length (filter (\<lambda>msg. sender_id msg \<noteq> user \<and> \<not> is_read msg) history).
                   tbl_messages s' ! i
                     = (tbl_messages s ! i)\<lparr>is_read := True, read_at := Some (date j)\<rparr>
            else tbl_messages s' ! i = tbl_messages s ! i"
  proof (intro allI impI)
    fix i assume i: "i < length (tbl_messages s)"
    have e: "tbl_messages s' ! i = marked (can_access s user) ?unread date 0 (tbl_messages s ! i)"
      using i by (simp add: s')
    show "if tbl_messages s ! i \<in> set history \<and> sender_id (tbl_messages s ! i) \<noteq> user \<and>
               \<not> is_read (tbl_messages s ! i)
            then \<exists>j<length (filter (\<lambda>msg. sender_id msg \<noteq> user \<and> \<not> is_read msg) history).
                   tbl_messages s' ! i
                     = (tbl_messages s ! i)\<lparr>is_read := True, read_at := Some (date j)\<rparr>
            else tbl_messages s' ! i = tbl_messages s ! i"
      unfolding e h by (rule loadMessages_rows [OF assms(2) i refl refl])
  qed
  have zero: "count_unread user convId user s' = (Inr 0, s')"
    using loadMessages_none_unread [where user = user and convId = convId and s = s and date = date]
    by (simp add: count_unread_def s')
  have peer: "fst (fetchUnreadCounts (Some user) (old, s')) (otherUserId user conv) = Some 0"
    if "conv \<in> set (tbl_conversations s)" "unique_pairs s" "conv_id conv = convId"
      "is_participant user conv" for conv
  proof -
    have q: "outages s' = []" using assms(1) by (simp add: s')
    have u: "unique_pairs s'" using that(2) by (simp add: s' unique_pairs_def)
    have c: "conv \<in> set (tbl_conversations s')" using that(1) by (simp add: s')
    from count_unread_participant [OF c that(4)] zero that(3)
    have "length (filter (\<lambda>m. conversation_id m = conv_id conv \<and> \<not> is_read m \<and>
                               sender_id m \<noteq> user) (tbl_messages s')) = 0"
      by simp
    with fetchUnreadCounts_value [OF q u c that(4), of old] show ?thesis by simp
  qed
  show ?thesis
    using h len rows zero peer by blast
qed


theorem loadMessages_marks_unread_witness:
  "map msg_id (fst demo_loaded) = [1, 2, 3] \<and>
   map (\<lambda>m. (msg_id m, is_read m, read_at m))
     (tbl_messages (snd demo_loaded))
     = [(1, True, Some 10), (2, False, None), (3, True, Some 11), (4, True, Some 7),
        (5, False, None)] \<and>
   count_unread 1 1 1 (snd demo_loaded)
     = (Inr 0, snd demo_loaded) \<and>
   fst (fetchUnreadCounts (Some 1) (Map.empty, snd demo_loaded)) 2
     = Some 0"
proof -
  have q: "outages demo_inbox = []" and u: "unique_message_ids demo_inbox"
    and p: "unique_pairs demo_inbox"
    by (simp_all add: demo_inbox_def unique_message_ids_def unique_pairs_def pair_key_def)
  have l: "loadMessages 1 1 (\<lambda>k. 10 + k) ([], demo_inbox) = (fst demo_loaded, snd demo_loaded)"
    by (simp add: demo_loaded_def)
  have c: "\<lparr>conv_id = 1, participant_1 = 1, participant_2 = 2\<rparr> \<in> set (tbl_conversations demo_inbox)"
    by (simp add: demo_inbox_def)
  have e: "tbl_messages (snd demo_loaded) =
        [\<lparr>msg_id = 1, conversation_id = 1, sender_id = 2, content = [72, 105],
          is_read = True, delivered_at = Some 3, read_at = Some 10, created_at = 3\<rparr>,
         \<lparr>msg_id = 2, conversation_id = 1, sender_id = 1, content = [79, 75],
          is_read = False, delivered_at = Some 4, read_at = None, created_at = 4\<rparr>,
         \<lparr>msg_id = 3, conversation_id = 1, sender_id = 2, content = [63],
          is_read = True, delivered_at = Some 5, read_at = Some 11, created_at = 5\<rparr>,
         \<lparr>msg_id = 4, conversation_id = 2, sender_id = 3, content = [89, 111],
          is_read = True, delivered_at = Some 6, read_at = Some 7, created_at = 6\<rparr>,
         \<lparr>msg_id = 5, conversation_id = 3, sender_id = 3, content = [90],
          is_read = False, delivered_at = Some 8, read_at = None, created_at = 8\<rparr>]"
    by (simp add: demo_loaded_def demo_inbox_def request_def select_messages_def can_access_def
        is_participant_def markMessageAsRead_def update_message_read_def)
  have h: "map msg_id (fst demo_loaded) = [1, 2, 3]"
    by (simp add: demo_loaded_def demo_inbox_def request_def select_messages_def can_access_def
        is_participant_def)
  from loadMessages_marks_unread [OF q u l, of Map.empty] c p
  have "count_unread 1 1 1 (snd demo_loaded)
          = (Inr 0, snd demo_loaded)"
    and "fst (fetchUnreadCounts (Some 1) (Map.empty, snd demo_loaded)) 2
          = Some 0"
    by (auto simp: is_participant_def otherUserId_def)
  then show ?thesis
    using h by (simp add: e)
qed

section \<open>Properties of every reachable backend\<close>

lemma select_unchanged [simp]:
  "snd (select_conversation_between uid a b s) = s"
  "snd (select_conversations_of uid u s) = s"
  "snd (select_messages uid cid s) = s"
  "snd (count_unread uid cid u s) = s"
  "snd (select_typing uid cid u s) = s"
  by (simp_all add: select_conversation_between_def select_conversations_of_def
      select_messages_def count_unread_def select_typing_def split: sum.splits option.splits)

lemma kept_request:
  assumes "kept_by_store I" and "\<And>s'. I s' \<Longrightarrow> I (snd (q s'))" and "I s"
  shows "I (snd (request q s))"
  using assms by (simp add: request_def kept_by_store_def split: list.splits)

lemma kept_requestD:
  assumes "request q s = (r, s1)" and "kept_by_store I" and "\<And>s'. I s' \<Longrightarrow> I (snd (q s'))"
    and "I s"
  shows "I s1"
  using kept_request [of I q s, OF assms(2,3,4)] assms(1) by simp

lemma kept_other_sessions:
  assumes "kept_by_store I" and "I s"
  shows "I (other_sessions concurrent s)"
  using assms(2) unfolding other_sessions_def
proof (induction concurrent arbitrary: s)
  case Nil
  then show ?case by simp
next
  case (Cons c cs)
  have "I (snd (insert_conversation (fst c) (fst c) (snd c) s))"
    using assms(1) Cons.prems by (simp add: kept_by_store_def)
  then show ?case
    using Cons.IH by (simp add: case_prod_beta)
qed

lemma kept_getOrCreateConversation:
  assumes "kept_by_store I" and "I s"
  shows "I (snd (getOrCreateConversation user selectedUser concurrent s))"
proof -
  obtain r1 s1 where 1: "request (select_conversation_between user user selectedUser) s = (r1, s1)"
    by (cases "request (select_conversation_between user user selectedUser) s")
  have s1: "I s1"
    using 1 assms(1) _ assms(2) by (rule kept_requestD) simp
  obtain r2 s2 where 2: "request (insert_conversation user user selectedUser)
                            (other_sessions concurrent s1) = (r2, s2)"
    by (cases "request (insert_conversation user user selectedUser) (other_sessions concurrent s1)")
  have s2: "I s2"
    using 2 assms(1) _ kept_other_sessions [OF assms(1) s1]
    by (rule kept_requestD) (use assms(1) in \<open>simp add: kept_by_store_def\<close>)
  show ?thesis
    using s1 s2 by (simp add: getOrCreateConversation_def 1 2 split: sum.splits option.splits)
qed

lemma kept_markMessageAsRead:
  assumes "kept_by_store I" and "I s"
  shows "I (markMessageAsRead user mid t s)"
  unfolding markMessageAsRead_def
  using assms(1) _ assms(2)
  by (rule kept_request) (use assms(1) in \<open>simp add: kept_by_store_def\<close>)

lemma kept_mark_each:
  assumes "kept_by_store I"
  shows "I s \<Longrightarrow> I (mark_each user ms date k s)"
  by (induction ms arbitrary: k s) (simp_all add: kept_markMessageAsRead [OF assms])

lemma kept_loadMessages:
  assumes "kept_by_store I" and "I s"
  shows "I (snd (loadMessages user convId date (prev, s)))"
proof -
  obtain r1 s1 where 1: "request (select_messages user convId) s = (r1, s1)"
    by (cases "request (select_messages user convId) s")
  have "I s1"
    using 1 assms(1) _ assms(2) by (rule kept_requestD) simp
  then show ?thesis
    by (simp add: 1 kept_mark_each [OF assms(1)] split: sum.splits)
qed

lemma kept_handleSendMessage:
  assumes "kept_by_store I" and "I s"
  shows "I (snd (handleSendMessage conversationId user str clk s))"
proof -
  have "I (snd (request (insert_message user cid user (trim str) clk) s))" for cid
    using assms(1) _ assms(2)
    by (rule kept_request) (use assms(1) in \<open>simp add: kept_by_store_def\<close>)
  then show ?thesis
    using assms(2) by (simp add: handleSendMessage_def split: option.splits)
qed

lemma kept_typing_lookup:
  assumes "kept_by_store I" and "I s"
  shows "I (snd (typing_lookup user cid s))"
proof -
  obtain r1 s1 where 1: "request (select_typing user cid user) s = (r1, s1)"
    by (cases "request (select_typing user cid user) s")
  have "I s1"
    using 1 assms(1) _ assms(2) by (rule kept_requestD) simp
  then show ?thesis
    by (simp add: typing_lookup_def 1 split: sum.splits)
qed

lemma kept_typing_write:
  assumes "kept_by_store I" and "I s"
  shows "I (typing_write user cid flag clk existing s)"
proof -
  have a: "I (snd (request (update_typing user e flag (client_now clk)) s))" for e
    using assms(1) _ assms(2)
    by (rule kept_request) (use assms(1) in \<open>simp add: kept_by_store_def\<close>)
  have b: "I (snd (request (insert_typing user cid user flag (server_now clk)) s))"
    using assms(1) _ assms(2)
    by (rule kept_request) (use assms(1) in \<open>simp add: kept_by_store_def\<close>)
  show ?thesis
    using a b by (simp add: typing_write_def split: option.splits)
qed

lemma kept_updateTypingIndicator:
  assumes "kept_by_store I" and "I s"
  shows "I (updateTypingIndicator conversationId user flag clk s)"
proof (cases conversationId)
  case None
  then show ?thesis using assms(2) by (simp add: updateTypingIndicator_def)
next
  case (Some cid)
  have "I (typing_write user cid flag clk (fst (typing_lookup user cid s))
             (snd (typing_lookup user cid s)))"
    using assms(1) kept_typing_lookup [OF assms] by (rule kept_typing_write)
  then show ?thesis
    by (simp add: updateTypingIndicator_def Some case_prod_beta)
qed

lemma kept_messagesChannel:
  assumes "kept_by_store I" and "I s"
  shows "I (snd (messagesChannel conversationId user now ev (prev, s)))"
  using assms(2)
  by (cases conversationId; cases ev) (simp_all add: kept_markMessageAsRead [OF assms(1)])

lemma kept_handleSubmit:
  assumes "kept_by_store I" and "I s"
  shows "I (snd (snd (handleSubmit disabled conversationId user clk1 clk2 (str, s))))"
proof (cases conversationId)
  case None
  then show ?thesis using assms(2) by simp
next
  case (Some cid)
  have "I (snd (typing_lookup user cid s))"
    using assms by (rule kept_typing_lookup)
  then have "I (snd (handleSendMessage (Some cid) user (trim str) clk2
                       (snd (typing_lookup user cid s))))"
    by (rule kept_handleSendMessage [OF assms(1)])
  then have "I (typing_write user cid False clk1 (fst (typing_lookup user cid s))
                  (snd (handleSendMessage (Some cid) user (trim str) clk2
                          (snd (typing_lookup user cid s)))))"
    by (rule kept_typing_write [OF assms(1)])
  then show ?thesis
    using assms(2) by (simp add: Some case_prod_beta)
qed

lemma kept_count_each:
  assumes "kept_by_store I"
  shows "I s \<Longrightarrow> I (snd (count_each u cs counts s))"
proof (induction cs arbitrary: counts s)
  case Nil
  then show ?case by simp
next
  case (Cons c cs)
  obtain r1 s1 where 1: "request (count_unread u (conv_id c) u) s = (r1, s1)"
    by (cases "request (count_unread u (conv_id c) u) s")
  have "I s1"
    using 1 assms _ Cons.prems by (rule kept_requestD) simp
  then show ?case
    by (simp add: 1 Cons.IH split: sum.splits)
qed

lemma kept_fetchUnreadCounts:
  assumes "kept_by_store I" and "I s"
  shows "I (snd (fetchUnreadCounts user (counts, s)))"
proof (cases user)
  case None
  then show ?thesis using assms(2) by simp
next
  case (Some u)
  obtain r1 s1 where 1: "request (select_conversations_of u u) s = (r1, s1)"
    by (cases "request (select_conversations_of u u) s")
  have "I s1"
    using 1 assms(1) _ assms(2) by (rule kept_requestD) simp
  then show ?thesis
    by (simp add: Some 1 kept_count_each [OF assms(1)] split: sum.splits)
qed

text \<open>Such a property of empty tables holds in every reachable backend.\<close>

lemma reachable_kept:
  assumes "kept_by_store I"
    and "\<And>ps fs. I \<lparr>tbl_profiles = ps, tbl_conversations = [], tbl_messages = [],
                      tbl_typing_indicators = [], outages = fs\<rparr>"
    and "reachable s"
  shows "I s"
  using assms(3)
proof (induction rule: reachable.induct)
  case (init ps fs)
  show ?case by (rule assms(2))
next
  case (connection s fs)
  then show ?case using assms(1) by (simp add: kept_by_store_def)
next
  case (signup s u)
  then show ?case using assms(1) by (simp add: kept_by_store_def)
next
  case (asked s user cid)
  then show ?case by (simp only: kept_typing_lookup [OF assms(1)])
next
  case (written s user cid flag clk existing)
  then show ?case by (simp only: kept_typing_write [OF assms(1)])
next
  case (resolve s user selectedUser concurrent)
  then show ?case by (simp only: kept_getOrCreateConversation [OF assms(1)])
next
  case (load s user convId date prev)
  then show ?case by (simp only: kept_loadMessages [OF assms(1)])
next
  case (mark s user messageId now)
  then show ?case by (simp only: kept_markMessageAsRead [OF assms(1)])
next
  case (send s conversationId user str clk)
  then show ?case by (simp only: kept_handleSendMessage [OF assms(1)])
next
  case (typing s conversationId user flag clk)
  then show ?case by (simp only: kept_updateTypingIndicator [OF assms(1)])
next
  case (event s conversationId user now ev prev)
  then show ?case by (simp only: kept_messagesChannel [OF assms(1)])
next
  case (submit s disabled conversationId user clk1 clk2 str)
  then show ?case by (simp only: kept_handleSubmit [OF assms(1)])
next
  case (unread s user counts)
  then show ?case by (simp only: kept_fetchUnreadCounts [OF assms(1)])
qed

subsection \<open>The constraints of the schema\<close>

lemma fold_max_ge: "a \<le> fold max xs (a::nat)"
  by (induction xs arbitrary: a) (auto intro: order_trans [OF max.cobounded2])

lemma fold_max_member: "x \<in> set xs \<Longrightarrow> x \<le> fold max xs (a::nat)"
proof (induction xs arbitrary: a)
  case Nil
  then show ?case by simp
next
  case (Cons y ys)
  show ?case
  proof (cases "x = y")
    case True
    have "y \<le> max y a" by simp
    also have "\<dots> \<le> fold max ys (max y a)" by (rule fold_max_ge)
    finally show ?thesis using True by simp
  next
    case False
    then show ?thesis using Cons by simp
  qed
qed

lemma fresh_id_fresh: "fresh_id used \<notin> set used"
proof
  assume "fresh_id used \<in> set used"
  then have "fresh_id used \<le> fold max used 0" by (rule fold_max_member)
  then show False by (simp add: fresh_id_def)
qed

lemma kept_unique_pairs: "kept_by_store unique_pairs"
proof -
  have "distinct (map pair_key (tbl_conversations s)) \<Longrightarrow>
        distinct (map pair_key (tbl_conversations (snd (insert_conversation uid a b s))))"
    for s uid a b
    by (auto simp: insert_conversation_def Let_def list_ex_iff same_pair_key pair_key_def)
  then show ?thesis
    by (simp add: kept_by_store_def unique_pairs_def update_message_read_def insert_message_def
        update_typing_def insert_typing_def)
qed

lemma kept_unique_message_ids: "kept_by_store unique_message_ids"
proof -
  have a: "msg_id \<circ> (\<lambda>m. if P m then m\<lparr>is_read := True, read_at := Some t\<rparr> else m) = msg_id"
    for P t
    by (rule ext) simp
  have b: "fresh_id (map msg_id ms) \<notin> msg_id ` set ms" for ms
    using fresh_id_fresh [of "map msg_id ms"] by simp
  show ?thesis
    by (simp add: kept_by_store_def unique_message_ids_def update_message_read_def
        insert_message_def update_typing_def insert_typing_def insert_conversation_def Let_def
        a b)
qed

lemma kept_unique_typing: "kept_by_store unique_typing"
proof -
  have a: "(\<lambda>r. (ti_conversation_id r, user_id r)) \<circ>
             (\<lambda>r. if P r then r\<lparr>is_typing := flag, updated_at := t\<rparr> else r)
           = (\<lambda>r. (ti_conversation_id r, user_id r))"
    for P flag t
    by (rule ext) simp
  show ?thesis
    by (auto simp: kept_by_store_def unique_typing_def update_message_read_def
        insert_message_def update_typing_def insert_typing_def insert_conversation_def Let_def
        list_ex_iff a)
qed

text \<open>The backends the client produces respect the unique index of
  \<^verbatim>\<open>conversations\<close>, the primary key of \<^verbatim>\<open>messages\<close> and the unique constraint of
  \<^verbatim>\<open>typing_indicators\<close>.\<close>

lemma reachable_schema:
  assumes "reachable s"
  shows "unique_pairs s" and "unique_message_ids s" and "unique_typing s"
proof -
  show "unique_pairs s"
    using kept_unique_pairs _ assms by (rule reachable_kept) (simp add: unique_pairs_def)
  show "unique_message_ids s"
    using kept_unique_message_ids _ assms
    by (rule reachable_kept) (simp add: unique_message_ids_def)
  show "unique_typing s"
    using kept_unique_typing _ assms by (rule reachable_kept) (simp add: unique_typing_def)
qed

subsection \<open>The read state of a message\<close>

lemma kept_read_mirror: "kept_by_store read_mirror"
  by (auto simp: kept_by_store_def read_mirror_def update_message_read_def insert_message_def
      update_typing_def insert_typing_def insert_conversation_def Let_def list_all_iff)

text \<open>
  C9: in every backend that the operations of the client produce from empty tables,
  whatever the users, arguments, clock readings and failed requests, each message has
  \<^verbatim>\<open>is_read\<close> true exactly when its \<^verbatim>\<open>read_at\<close> is set.
\<close>

theorem is_read_mirrors_read_at:
  assumes "reachable s"
  shows "\<forall>m\<in>set (tbl_messages s). is_read m = (read_at m \<noteq> None)"
proof -
  have "read_mirror s"
    using kept_read_mirror _ assms by (rule reachable_kept) (simp add: read_mirror_def)
  then show ?thesis by (simp add: read_mirror_def list_all_iff)
qed


theorem is_read_mirrors_read_at_witness:
  "reachable demo_sent \<and> reachable demo_read \<and>
   map (\<lambda>m. (is_read m, read_at m)) (tbl_messages demo_sent) = [(False, None)] \<and>
   map (\<lambda>m. (is_read m, read_at m)) (tbl_messages demo_read) = [(True, Some 9)]"
proof -
  have "reachable empty_backend"
    unfolding empty_backend_def by (rule reachable.init)
  then have "reachable (snd (getOrCreateConversation 1 2 [] empty_backend))"
    by (rule reachable.resolve)
  then have a: "reachable demo_sent"
    unfolding demo_sent_def by (rule reachable.send)
  then have b: "reachable demo_read"
    unfolding demo_read_def by (rule reachable.mark)
  have s: "tbl_messages demo_sent =
             [\<lparr>msg_id = 1, conversation_id = 1, sender_id = 1, content = [72, 105],
               is_read = False, delivered_at = Some 7, read_at = None, created_at = 8\<rparr>]"
    by (simp add: demo_sent_def empty_backend_def demo_clock_def getOrCreateConversation_def
        request_def select_conversation_between_def maybeSingle_def other_sessions_def
        insert_conversation_def handleSendMessage_def insert_message_def trim_def
        storable_text_def is_high_surrogate_def is_low_surrogate_def
        is_white_space_def fresh_id_def can_access_def is_participant_def)
  have r: "tbl_messages demo_read =
             [\<lparr>msg_id = 1, conversation_id = 1, sender_id = 1, content = [72, 105],
               is_read = True, delivered_at = Some 7, read_at = Some 9, created_at = 8\<rparr>]"
    by (simp add: demo_read_def demo_sent_def empty_backend_def demo_clock_def
        getOrCreateConversation_def markMessageAsRead_def update_message_read_def
        request_def select_conversation_between_def maybeSingle_def other_sessions_def
        insert_conversation_def handleSendMessage_def insert_message_def trim_def
        storable_text_def is_high_surrogate_def is_low_surrogate_def
        is_white_space_def fresh_id_def can_access_def is_participant_def)
  show ?thesis
    using a b is_read_mirrors_read_at [OF a] is_read_mirrors_read_at [OF b] by (simp add: s r)
qed

section \<open>The id the resolver returns\<close>

text \<open>The id that the resolver returns is that of a conversation of the user, which is
  what the later requests of the chat window need.\<close>

lemma request_cases:
  assumes "request q s = (r, s1)"
  obtains fs where "r = Inl TransportError" and "s1 = s\<lparr>outages := fs\<rparr>"
  | fs where "q (s\<lparr>outages := fs\<rparr>) = (r, s1)"
proof (cases "outages s")
  case Nil
  have "s\<lparr>outages := []\<rparr> = s"
    unfolding Nil [symmetric] by simp
  moreover have "q s = (r, s1)"
    using assms Nil by (simp add: request_def)
  ultimately have "q (s\<lparr>outages := []\<rparr>) = (r, s1)"
    by (simp only:)
  then show ?thesis by (rule that(2))
next
  case (Cons f fs)
  show ?thesis
  proof (cases f)
    case True
    then have "r = Inl TransportError" and "s1 = s\<lparr>outages := fs\<rparr>"
      using assms Cons by (simp_all add: request_def)
    then show ?thesis by (rule that(1))
  next
    case False
    then have "q (s\<lparr>outages := fs\<rparr>) = (r, s1)"
      using assms Cons by (simp add: request_def)
    then show ?thesis by (rule that(2))
  qed
qed

lemma select_found_access:
  assumes "select_conversation_between user user selectedUser s = (Inr (Some c), s1)"
  shows "can_access s1 user c"
proof (cases "filter (\<lambda>c. is_participant user c \<and> between user selectedUser c) (tbl_conversations s)")
  case Nil
  then show ?thesis
    using assms by (simp add: select_conversation_between_def maybeSingle_def)
next
  case (Cons row rest)
  then have "row \<in> set (filter (\<lambda>c. is_participant user c \<and> between user selectedUser c)
                          (tbl_conversations s))"
    by simp
  then have row: "row \<in> set (tbl_conversations s) \<and> is_participant user row"
    by (simp only: set_filter mem_Collect_eq)
  have "c = conv_id row \<and> s1 = s"
    using assms Cons
    by (cases rest) (simp_all add: select_conversation_between_def maybeSingle_def)
  then show ?thesis
    using row by (auto simp: can_access_def list_ex_iff)
qed

lemma insert_conversation_access:
  assumes "insert_conversation user user selectedUser s = (Inr c, s1)"
  shows "can_access s1 user c"
  using assms
  by (auto simp: insert_conversation_def Let_def can_access_def is_participant_def
      split: if_splits)

lemma getOrCreateConversation_access:
  assumes "getOrCreateConversation user selectedUser concurrent s = (Inr c, s')"
  shows "can_access s' user c"
proof -
  obtain r1 s1 where 1: "request (select_conversation_between user user selectedUser) s = (r1, s1)"
    by (cases "request (select_conversation_between user user selectedUser) s")
  obtain r2 s2 where 2: "request (insert_conversation user user selectedUser)
                            (other_sessions concurrent s1) = (r2, s2)"
    by (cases "request (insert_conversation user user selectedUser) (other_sessions concurrent s1)")
  show ?thesis
  proof (cases r1)
    case (Inl e)
    then show ?thesis using assms by (simp add: getOrCreateConversation_def 1)
  next
    case (Inr found)
    show ?thesis
    proof (cases found)
      case (Some existing)
      then have e: "existing = c" "s1 = s'"
        using assms Inr by (simp_all add: getOrCreateConversation_def 1)
      from 1 have "request (select_conversation_between user user selectedUser) s
                     = (Inr (Some existing), s1)"
        by (simp add: Inr Some)
      then have "can_access s1 user existing"
      proof (rule request_cases)
        fix fs
        assume "(Inr (Some existing) :: store_error + uuid option) = Inl TransportError"
        then show ?thesis by simp
      next
        fix fs
        assume "select_conversation_between user user selectedUser (s\<lparr>outages := fs\<rparr>)
                  = (Inr (Some existing), s1)"
        then show ?thesis by (rule select_found_access)
      qed
      then show ?thesis by (simp add: e)
    next
      case None
      have e: "r2 = Inr c \<and> s2 = s'"
        using assms by (cases r2) (simp_all add: getOrCreateConversation_def 1 2 Inr None)
      from 2 have "request (insert_conversation user user selectedUser)
                     (other_sessions concurrent s1) = (Inr c, s2)"
        by (simp add: e)
      then have "can_access s2 user c"
      proof (rule request_cases)
        fix fs
        assume "(Inr c :: store_error + uuid) = Inl TransportError"
        then show ?thesis by simp
      next
        fix fs
        assume "insert_conversation user user selectedUser
                  ((other_sessions concurrent s1)\<lparr>outages := fs\<rparr>) = (Inr c, s2)"
        then show ?thesis by (rule insert_conversation_access)
      qed
      then show ?thesis by (simp add: e)
    qed
  qed
qed

end
